theory Spec2Isabelle
  imports Main "HOL-Library.Char_ord" "HOL-Library.List_Lexorder"
    "HOL-Library.Product_Lexorder" "HOL-Library.Multiset" "HOL-Library.Sublist"
begin

section \<open>Python values used by \<open>formats/bed.py\<close>\<close>

text \<open>
  The module works on byte strings (\<open>str\<close> of Python 2), modelled as \<open>string\<close>,
  and on unbounded integers, modelled as \<open>int\<close>. Every exception the code can raise is a
  constructor of \<open>error\<close>; a function that can raise returns \<open>error + 'a\<close>.
\<close>

datatype error =
    AssertionError string
  | ValueError
  | IndexError
  | KeyError
  | TypeError
  | NotFound

definition TAB :: char where
  "TAB = CHR 0x09"

text \<open>The characters \<open>str.strip()\<close> and \<open>int()\<close> treat as whitespace:
  space, tab, newline, vertical tab, form feed, carriage return.\<close>

definition isspace :: "char \<Rightarrow> bool" where
  "isspace c \<longleftrightarrow> c \<in> set [CHR 0x20, CHR 0x09, CHR 0x0A, CHR 0x0B, CHR 0x0C, CHR 0x0D]"

definition lstrip :: "string \<Rightarrow> string" where
  "lstrip s = dropWhile isspace s"

definition rstrip :: "string \<Rightarrow> string" where
  "rstrip s = rev (dropWhile isspace (rev s))"

definition strip :: "string \<Rightarrow> string" where
  "strip s = rstrip (lstrip s)"

text \<open>\<open>s.rstrip(chars)\<close> with a one-character argument: every trailing occurrence goes.\<close>

definition rstrip_char :: "char \<Rightarrow> string \<Rightarrow> string" where
  "rstrip_char c s = rev (dropWhile (\<lambda>x. x = c) (rev s))"

text \<open>\<open>s.split(sep)\<close> with a one-character separator: never the empty list, and
  an empty field between two adjacent separators.\<close>

fun split :: "char \<Rightarrow> string \<Rightarrow> string list" where
  "split sep [] = [[]]"
| "split sep (c # cs) =
     (if c = sep then [] # split sep cs
      else (case split sep cs of
              [] \<Rightarrow> [[c]]
            | f # fs \<Rightarrow> (c # f) # fs))"

text \<open>\<open>sep.join(xs)\<close>.\<close>

fun join :: "string \<Rightarrow> string list \<Rightarrow> string" where
  "join sep [] = []"
| "join sep [x] = x"
| "join sep (x # y # ys) = x @ sep @ join sep (y # ys)"

text \<open>\<open>xs[i]\<close> for a non-negative literal index \<open>i\<close>: \<open>IndexError\<close> out of range.\<close>

definition getitem :: "'a list \<Rightarrow> nat \<Rightarrow> error + 'a" where
  "getitem xs i = (if i < length xs then Inr (xs ! i) else Inl IndexError)"

subsection \<open>\<open>int(s)\<close> and \<open>str(n)\<close>\<close>

definition isdigit :: "char \<Rightarrow> bool" where
  "isdigit c \<longleftrightarrow> CHR ''0'' \<le> c \<and> c \<le> CHR ''9''"

definition digit_val :: "char \<Rightarrow> nat" where
  "digit_val c = of_char c - of_char CHR ''0''"

definition digit_chr :: "nat \<Rightarrow> char" where
  "digit_chr d = char_of (of_char CHR ''0'' + d)"

text \<open>The value of a run of decimal digits, most significant first.\<close>

definition digits_val :: "string \<Rightarrow> nat" where
  "digits_val ds = foldl (\<lambda>n c. 10 * n + digit_val c) 0 ds"

definition parse_digits :: "string \<Rightarrow> error + nat" where
  "parse_digits ds =
     (if ds \<noteq> [] \<and> list_all isdigit ds then Inr (digits_val ds) else Inl ValueError)"

text \<open>\<open>int(s)\<close> in base 10: whitespace around the literal is dropped, one sign is
  allowed directly before the digits, at least one digit is required; anything else is a
  \<open>ValueError\<close>. Leading zeros are accepted.\<close>

definition py_int :: "string \<Rightarrow> error + int" where
  "py_int s =
     (case strip s of
        [] \<Rightarrow> Inl ValueError
      | c # cs \<Rightarrow>
          if c = CHR ''-'' then
            (case parse_digits cs of Inl e \<Rightarrow> Inl e | Inr n \<Rightarrow> Inr (- int n))
          else if c = CHR ''+'' then
            (case parse_digits cs of Inl e \<Rightarrow> Inl e | Inr n \<Rightarrow> Inr (int n))
          else
            (case parse_digits (c # cs) of Inl e \<Rightarrow> Inl e | Inr n \<Rightarrow> Inr (int n)))"

text \<open>\<open>str(n)\<close> of a non-negative integer: its decimal digits without leading zeros.\<close>

fun str_nat :: "nat \<Rightarrow> string" where
  "str_nat n = (if n < 10 then [digit_chr n] else str_nat (n div 10) @ [digit_chr (n mod 10)])"

declare str_nat.simps [simp del]

definition str_int :: "int \<Rightarrow> string" where
  "str_int i = (if i < 0 then CHR ''-'' # str_nat (nat (- i)) else str_nat (nat i))"

section \<open>\<open>BedLine\<close>: one interval record\<close>

text \<open>
  The slots of \<open>BedLine\<close>. \<open>end'\<close> is the attribute \<open>end\<close>. An attribute that
  holds \<open>None\<close> is \<open>None\<close> here.
\<close>

record BedLine =
  seqid :: string
  start :: int
  end' :: int
  accn :: string
  extra :: "string list option"
  score :: "string option"
  strand :: "string option"

text \<open>The message of both assertions: \<open>"start={0} end={1}".format(start, end)\<close>.\<close>

definition assert_msg :: "int \<Rightarrow> int \<Rightarrow> string" where
  "assert_msg s e = ''start='' @ str_int s @ '' end='' @ str_int e"

text \<open>
  \<open>BedLine.__init__(sline)\<close>, statement by statement: the fields are read in the order
  \<open>args[0]\<close>, \<open>int(args[1])\<close>, \<open>int(args[2])\<close>, the assertion, \<open>args[3]\<close>, so a
  line with three columns and reversed coordinates fails on the assertion, not on the
  missing column.
\<close>

definition BedLine_init :: "string \<Rightarrow> error + BedLine" where
  "BedLine_init sline =
     (let args = split TAB (strip sline) in
      case getitem args 0 of Inl e \<Rightarrow> Inl e | Inr a0 \<Rightarrow>
      case getitem args 1 of Inl e \<Rightarrow> Inl e | Inr a1 \<Rightarrow>
      case py_int a1 of Inl e \<Rightarrow> Inl e | Inr s0 \<Rightarrow>
      case getitem args 2 of Inl e \<Rightarrow> Inl e | Inr a2 \<Rightarrow>
      case py_int a2 of Inl e \<Rightarrow> Inl e | Inr e0 \<Rightarrow>
      if \<not> s0 + 1 \<le> e0 then Inl (AssertionError (assert_msg (s0 + 1) e0)) else
      case getitem args 3 of Inl e \<Rightarrow> Inl e | Inr a3 \<Rightarrow>
      Inr \<lparr> seqid = a0, start = s0 + 1, end' = e0, accn = a3,
            extra = (if length args > 4 then Some (drop 4 args) else None),
            score = (if length args > 4 then Some (args ! 4) else None),
            strand = (if length args > 5 then Some (args ! 5) else None) \<rparr>)"

text \<open>\<open>BedLine.__str__\<close>. \<open>if self.extra\<close> is false for \<open>None\<close> and for the empty list.\<close>

definition BedLine_str :: "BedLine \<Rightarrow> string" where
  "BedLine_str b =
     (let s = join [TAB] [seqid b, str_int (start b - 1), str_int (end' b), accn b] in
      case extra b of
        None \<Rightarrow> s
      | Some xs \<Rightarrow> if xs = [] then s else s @ [TAB] @ join [TAB] xs)"

text \<open>The lookup table of the strand flip, \<open>{'+': '-', '-': '+'}[strand]\<close>.\<close>

definition flip_strand :: "string \<Rightarrow> error + string" where
  "flip_strand s =
     (if s = ''+'' then Inr ''-'' else if s = ''-'' then Inr ''+'' else Inl KeyError)"

text \<open>
  \<open>BedLine.reverse_complement(sizes)\<close>. The record is changed in place, so the model
  returns the record as the call leaves it together with the exception, if any, that ended
  the call: an exception raised half way leaves the earlier assignments in the record.
  \<open>sizes\<close> is the caller's size table, \<open>sizes.get_size(seqid)\<close> being \<open>sizes seqid\<close>
  with \<open>None\<close> for an identifier it does not know. \<open>if self.strand\<close> is false for
  \<open>None\<close> and for the empty string. In \<open>self.strand = self.extra[1] = strand\<close> the
  attribute is assigned before the list element.
\<close>

definition reverse_complement :: "(string \<rightharpoonup> int) \<Rightarrow> BedLine \<Rightarrow> error option \<times> BedLine" where
  "reverse_complement sizes b =
     (case sizes (rstrip_char CHR ''-'' (seqid b)) of
        None \<Rightarrow> (Some NotFound, b)
      | Some sz \<Rightarrow>
          if seqid b = [] then (Some IndexError, b) else
          let b1 = b\<lparr>seqid := (if last (seqid b) = CHR ''-'' then butlast (seqid b)
                                 else seqid b @ ''-'')\<rparr>;
              b2 = b1\<lparr>start := sz - end' b1 + 1, end' := sz - start b1 + 1\<rparr>
          in
          if \<not> start b2 \<le> end' b2
          then (Some (AssertionError (assert_msg (start b2) (end' b2))), b2) else
          (case strand b2 of
             None \<Rightarrow> (None, b2)
           | Some s \<Rightarrow>
               if s = [] then (None, b2) else
               (case flip_strand s of
                  Inl e \<Rightarrow> (Some e, b2)
                | Inr s' \<Rightarrow>
                    let b3 = b2\<lparr>strand := Some s'\<rparr> in
                    (case extra b3 of
                       None \<Rightarrow> (Some TypeError, b3)
                     | Some xs \<Rightarrow>
                         if 1 < length xs then (None, b3\<lparr>extra := Some (xs[1 := s'])\<rparr>)
                         else (Some IndexError, b3)))))"

section \<open>\<open>Bed\<close>: the collection\<close>

text \<open>
  A \<open>Bed\<close> is a list of records with the attribute \<open>key\<close>. The file system is a table
  from file names to the lines of each file (every line with its line terminator), so
  that \<open>open(filename)\<close> of a missing file is an error value.
\<close>

record 'k Bed =
  key :: "BedLine \<Rightarrow> 'k"
  items :: "BedLine list"

datatype load_error = IOError | LineError error

text \<open>The default of the \<open>key\<close> argument, \<open>lambda x: (x.seqid, x.start, x.accn)\<close>.
  Tuples, byte strings and integers compare as in Python: tuples and strings
  lexicographically, characters by their code.\<close>

definition default_key :: "BedLine \<Rightarrow> string \<times> int \<times> string" where
  "default_key x = (seqid x, start x, accn x)"

text \<open>The loop of \<open>Bed.__init__\<close> over the lines, \<open>acc\<close> being the list so far.\<close>

fun load_loop :: "BedLine list \<Rightarrow> string list \<Rightarrow> error + BedLine list" where
  "load_loop acc [] = Inr acc"
| "load_loop acc (line # rest) =
     (case getitem line 0 of
        Inl e \<Rightarrow> Inl e
      | Inr c \<Rightarrow>
          if c = CHR ''#'' then load_loop acc rest
          else (case BedLine_init line of
                  Inl e \<Rightarrow> Inl e
                | Inr b \<Rightarrow> load_loop (acc @ [b]) rest))"

text \<open>
  \<open>Bed.__init__(filename, key)\<close> with a key given; \<open>key=None\<close> is the call with
  \<open>default_key\<close>. \<open>not filename\<close> holds for \<open>None\<close> and for the empty name, and then
  the constructor returns before it reads or sorts anything. \<open>list.sort(key=...)\<close> is a
  stable sort, as \<open>sort_key\<close> is.
\<close>

definition Bed_init :: "(string \<rightharpoonup> string list) \<Rightarrow> string option \<Rightarrow> (BedLine \<Rightarrow> 'k::linorder)
    \<Rightarrow> load_error + 'k Bed" where
  "Bed_init fs filename k =
     (if filename = None \<or> filename = Some [] then Inr \<lparr>key = k, items = []\<rparr>
      else (case fs (the filename) of
              None \<Rightarrow> Inl IOError
            | Some ls \<Rightarrow>
                (case load_loop [] ls of
                   Inl e \<Rightarrow> Inl (LineError e)
                 | Inr bs \<Rightarrow> Inr \<lparr>key = k, items = sort_key k bs\<rparr>)))"

text \<open>The read-only properties and generators of \<open>Bed\<close>.\<close>

definition seqids :: "'k Bed \<Rightarrow> string list" where
  "seqids bed = sort (remdups (map seqid (items bed)))"

definition accns :: "'k Bed \<Rightarrow> string list" where
  "accns bed = sort (remdups (map accn (items bed)))"

text \<open>\<open>dict(pairs)\<close> stores the pairs one after the other, a later pair replacing an
  earlier one with the same key.\<close>

definition dict_put :: "('a \<rightharpoonup> 'v) \<Rightarrow> 'a \<times> 'v \<Rightarrow> ('a \<rightharpoonup> 'v)" where
  "dict_put m kv = m(fst kv \<mapsto> snd kv)"

definition dict :: "('a \<times> 'v) list \<Rightarrow> ('a \<rightharpoonup> 'v)" where
  "dict kvs = foldl dict_put Map.empty kvs"

definition order :: "'k Bed \<Rightarrow> (string \<rightharpoonup> nat \<times> BedLine)" where
  "order bed = dict (map (\<lambda>(i, f). (accn f, (i, f))) (enumerate 0 (items bed)))"

definition simple_bed :: "'k Bed \<Rightarrow> (string \<times> nat) list" where
  "simple_bed bed = map (\<lambda>(i, b). (seqid b, i)) (enumerate 0 (items bed))"

definition sub_bed :: "'k Bed \<Rightarrow> string \<Rightarrow> BedLine list" where
  "sub_bed bed s = filter (\<lambda>b. seqid b = s) (items bed)"

definition sub_beds :: "'k Bed \<Rightarrow> (string \<times> BedLine list) list" where
  "sub_beds bed = map (\<lambda>bs. (bs, sub_bed bed bs)) (seqids bed)"

subsection \<open>Coverage\<close>

text \<open>
  Modelled from the spec: \<open>range_union\<close> of \<open>jcvi.utils.range\<close>, which \<open>Bed.sum\<close>
  calls, is not among the sources. The specification gives its algorithm: group the
  intervals by seqid; within a group sort by start, then by end; sweep once with a current
  merged interval \<open>[curStart, curEnd]\<close>; an interval with \<open>start \<le> curEnd + 1\<close> extends
  \<open>curEnd\<close> to the larger end, any other flushes the length of the current interval into
  the running total and starts a new one; the last interval is flushed at the end of the
  group; the result is the sum of the totals of the groups, and 0 for no intervals.
\<close>

fun sweep :: "int \<Rightarrow> int \<Rightarrow> int \<Rightarrow> (int \<times> int) list \<Rightarrow> int" where
  "sweep tot curStart curEnd [] = tot + (curEnd - curStart + 1)"
| "sweep tot curStart curEnd ((s, e) # rest) =
     (if s \<le> curEnd + 1 then sweep tot curStart (max curEnd e) rest
      else sweep (tot + (curEnd - curStart + 1)) s e rest)"

definition group_total :: "(int \<times> int) list \<Rightarrow> int" where
  "group_total ivs = (case sort ivs of [] \<Rightarrow> 0 | (s, e) # rest \<Rightarrow> sweep 0 s e rest)"

definition group_of :: "string \<Rightarrow> (string \<times> int \<times> int) list \<Rightarrow> (int \<times> int) list" where
  "group_of c ranges = map snd (filter (\<lambda>r. fst r = c) ranges)"

definition range_union :: "(string \<times> int \<times> int) list \<Rightarrow> int" where
  "range_union ranges =
     sum_list (map (\<lambda>c. group_total (group_of c ranges)) (remdups (map fst ranges)))"

text \<open>The property \<open>Bed.sum\<close>.\<close>

definition Bed_sum :: "'k Bed \<Rightarrow> int" where
  "Bed_sum bed = range_union (map (\<lambda>x. (seqid x, start x, end' x)) (items bed))"

text \<open>
  The collection as an object with state: a call of one of the read-only members on a
  \<open>Bed\<close> gives an answer and leaves the object as the member left it. None of the
  members assigns to the object or calls a mutating method on it (\<open>sum\<close> hands a fresh
  list to \<open>range_union\<close>).
\<close>

datatype query = Seqids | Accns | Order | SimpleBed | SubBed string | SubBeds | Sum

datatype answer =
    Names "string list"
  | Index "string \<rightharpoonup> nat \<times> BedLine"
  | Positions "(string \<times> nat) list"
  | Records "BedLine list"
  | Groups "(string \<times> BedLine list) list"
  | Total int

fun call :: "query \<Rightarrow> 'k Bed \<Rightarrow> answer \<times> 'k Bed" where
  "call Seqids bed = (Names (seqids bed), bed)"
| "call Accns bed = (Names (accns bed), bed)"
| "call Order bed = (Index (order bed), bed)"
| "call SimpleBed bed = (Positions (simple_bed bed), bed)"
| "call (SubBed s) bed = (Records (sub_bed bed s), bed)"
| "call SubBeds bed = (Groups (sub_beds bed), bed)"
| "call Sum bed = (Total (Bed_sum bed), bed)"

section \<open>Notions used in the statements\<close>

text \<open>A record that \<open>reverse_complement\<close> accepts without an exception, for a seqid
  that is the name \<open>base\<close> with or without one marker.\<close>

definition reversible :: "(string \<rightharpoonup> int) \<Rightarrow> string \<Rightarrow> BedLine \<Rightarrow> bool" where
  "reversible sizes base b \<longleftrightarrow>
     base \<noteq> [] \<and> last base \<noteq> CHR ''-'' \<and> (seqid b = base \<or> seqid b = base @ ''-'')
     \<and> sizes base \<noteq> None \<and> start b \<le> end' b
     \<and> (strand b = None \<or> strand b = Some []
          \<or> ((strand b = Some ''+'' \<or> strand b = Some ''-'')
              \<and> (case extra b of None \<Rightarrow> False | Some xs \<Rightarrow> 1 < length xs)))"

text \<open>The positions a list of closed intervals covers.\<close>

definition covered :: "(int \<times> int) list \<Rightarrow> int set" where
  "covered ivs = (\<Union>(s, e) \<in> set ivs. {s..e})"

section \<open>Reversal\<close>

lemma rc_assert:
  assumes "start b \<le> end' b"
  shows "fst (reverse_complement sizes b) \<noteq> Some (AssertionError m)"
  using assms
  by (auto simp: reverse_complement_def Let_def flip_strand_def split: option.splits sum.splits)

lemma rc_fields:
  assumes "sizes (rstrip_char CHR ''-'' (seqid b)) = Some sz" and "seqid b \<noteq> []"
  shows "seqid (snd (reverse_complement sizes b)) =
           (if last (seqid b) = CHR ''-'' then butlast (seqid b) else seqid b @ ''-'')
    \<and> start (snd (reverse_complement sizes b)) = sz - end' b + 1
    \<and> end' (snd (reverse_complement sizes b)) = sz - start b + 1
    \<and> accn (snd (reverse_complement sizes b)) = accn b
    \<and> score (snd (reverse_complement sizes b)) = score b"
  using assms
  by (auto simp: reverse_complement_def Let_def flip_strand_def split: option.splits sum.splits)

lemma rc_notfound:
  "sizes (rstrip_char CHR ''-'' (seqid b)) = None \<Longrightarrow> reverse_complement sizes b = (Some NotFound, b)"
  by (simp add: reverse_complement_def)

lemma rc_strand_set:
  assumes "sizes (rstrip_char CHR ''-'' (seqid b)) = Some sz" and "seqid b \<noteq> []"
    and "start b \<le> end' b"
    and "strand b = Some s" and "flip_strand s = Inr s'" and "extra b = Some xs" and "1 < length xs"
  shows "fst (reverse_complement sizes b) = None
    \<and> strand (snd (reverse_complement sizes b)) = Some s'
    \<and> extra (snd (reverse_complement sizes b)) = Some (xs[1 := s'])"
  using assms
  by (auto simp: reverse_complement_def Let_def flip_strand_def split: option.splits sum.splits if_splits)

lemma rc_strand_unset:
  assumes "sizes (rstrip_char CHR ''-'' (seqid b)) = Some sz" and "seqid b \<noteq> []"
    and "start b \<le> end' b"
    and "strand b = None \<or> strand b = Some []"
  shows "fst (reverse_complement sizes b) = None
    \<and> strand (snd (reverse_complement sizes b)) = strand b
    \<and> extra (snd (reverse_complement sizes b)) = extra b"
  using assms
  by (auto simp: reverse_complement_def Let_def flip_strand_def split: option.splits sum.splits if_splits)

text \<open>The whole call in terms of the key the code computes, \<open>seqid.rstrip('-')\<close>.\<close>

lemma reverse_complement_rstrip:
  "(sizes (rstrip_char CHR ''-'' (seqid b)) = None \<longrightarrow>
      reverse_complement sizes b = (Some NotFound, b))
   \<and> (\<forall>sz. sizes (rstrip_char CHR ''-'' (seqid b)) = Some sz \<and> seqid b \<noteq> [] \<longrightarrow>
        seqid (snd (reverse_complement sizes b)) =
          (if last (seqid b) = CHR ''-'' then butlast (seqid b) else seqid b @ ''-'')
        \<and> start (snd (reverse_complement sizes b)) = sz - end' b + 1
        \<and> end' (snd (reverse_complement sizes b)) = sz - start b + 1
        \<and> (start b \<le> end' b \<and> strand b = None \<longrightarrow>
              fst (reverse_complement sizes b) = None
              \<and> strand (snd (reverse_complement sizes b)) = None
              \<and> extra (snd (reverse_complement sizes b)) = extra b)
        \<and> (\<forall>xs. start b \<le> end' b \<and> strand b = Some ''+'' \<and> extra b = Some xs \<and> 1 < length xs \<longrightarrow>
              fst (reverse_complement sizes b) = None
              \<and> strand (snd (reverse_complement sizes b)) = Some ''-''
              \<and> extra (snd (reverse_complement sizes b)) = Some (xs[1 := ''-'']))
        \<and> (\<forall>xs. start b \<le> end' b \<and> strand b = Some ''-'' \<and> extra b = Some xs \<and> 1 < length xs \<longrightarrow>
              fst (reverse_complement sizes b) = None
              \<and> strand (snd (reverse_complement sizes b)) = Some ''+''
              \<and> extra (snd (reverse_complement sizes b)) = Some (xs[1 := ''+''])))"
proof (intro conjI allI impI)
  assume "sizes (rstrip_char CHR ''-'' (seqid b)) = None"
  then show "reverse_complement sizes b = (Some NotFound, b)" by (rule rc_notfound)
next
  fix sz assume a: "sizes (rstrip_char CHR ''-'' (seqid b)) = Some sz \<and> seqid b \<noteq> []"
  note f = rc_fields [of sizes b sz]
  from a f show "seqid (snd (reverse_complement sizes b)) =
          (if last (seqid b) = CHR ''-'' then butlast (seqid b) else seqid b @ ''-'')" by blast
  from a f show "start (snd (reverse_complement sizes b)) = sz - end' b + 1" by blast
  from a f show "end' (snd (reverse_complement sizes b)) = sz - start b + 1" by blast
  {
    assume u: "start b \<le> end' b \<and> strand b = None"
    note g = rc_strand_unset [of sizes b sz]
    from a u g show "fst (reverse_complement sizes b) = None" by blast
    from a u g show "strand (snd (reverse_complement sizes b)) = None" by metis
    from a u g show "extra (snd (reverse_complement sizes b)) = extra b" by blast
  }
  {
    fix xs assume p: "start b \<le> end' b \<and> strand b = Some ''+'' \<and> extra b = Some xs \<and> 1 < length xs"
    have fl: "flip_strand ''+'' = Inr ''-''" by (simp add: flip_strand_def)
    note g = rc_strand_set [of sizes b sz "''+''" "''-''" xs]
    from a p g fl show "fst (reverse_complement sizes b) = None" by blast
    from a p g fl show "strand (snd (reverse_complement sizes b)) = Some ''-''" by blast
    from a p g fl show "extra (snd (reverse_complement sizes b)) = Some (xs[1 := ''-''])" by blast
  }
  {
    fix xs assume p: "start b \<le> end' b \<and> strand b = Some ''-'' \<and> extra b = Some xs \<and> 1 < length xs"
    have fl: "flip_strand ''-'' = Inr ''+''" by (simp add: flip_strand_def)
    note g = rc_strand_set [of sizes b sz "''-''" "''+''" xs]
    from a p g fl show "fst (reverse_complement sizes b) = None" by blast
    from a p g fl show "strand (snd (reverse_complement sizes b)) = Some ''+''" by blast
    from a p g fl show "extra (snd (reverse_complement sizes b)) = Some (xs[1 := ''+''])" by blast
  }
qed

lemma rstrip_char_keep: "s \<noteq> [] \<Longrightarrow> last s \<noteq> c \<Longrightarrow> rstrip_char c s = s"
  by (cases s rule: rev_cases) (simp_all add: rstrip_char_def)

lemma rstrip_char_snoc: "rstrip_char c (s @ [c]) = rstrip_char c s"
  by (simp add: rstrip_char_def)

lemma reversible_lookup:
  assumes "reversible sizes base b"
  shows "rstrip_char CHR ''-'' (seqid b) = base" and "seqid b \<noteq> []"
proof -
  from assms have nb: "base \<noteq> []" "last base \<noteq> CHR ''-''"
    and s: "seqid b = base \<or> seqid b = base @ ''-''"
    by (simp_all add: reversible_def)
  from s show "rstrip_char CHR ''-'' (seqid b) = base"
    using nb by (auto simp: rstrip_char_snoc rstrip_char_keep)
  from s nb show "seqid b \<noteq> []" by auto
qed

lemma reversible_step:
  assumes r: "reversible sizes base b"
  shows "fst (reverse_complement sizes b) = None
    \<and> reversible sizes base (snd (reverse_complement sizes b))
    \<and> seqid (snd (reverse_complement sizes b)) =
        (if seqid b = base then base @ ''-'' else base)
    \<and> start (snd (reverse_complement sizes b)) = the (sizes base) - end' b + 1
    \<and> end' (snd (reverse_complement sizes b)) = the (sizes base) - start b + 1
    \<and> strand (snd (reverse_complement sizes b)) =
        (if strand b = Some ''+'' then Some ''-''
         else if strand b = Some ''-'' then Some ''+'' else strand b)"
proof -
  let ?b' = "snd (reverse_complement sizes b)"
  from r obtain sz where sz: "sizes base = Some sz" by (auto simp: reversible_def)
  note lk = reversible_lookup [OF r]
  from sz lk have look: "sizes (rstrip_char CHR ''-'' (seqid b)) = Some sz" by simp
  from r have nb: "base \<noteq> []" "last base \<noteq> CHR ''-''"
    and s: "seqid b = base \<or> seqid b = base @ ''-''" and le: "start b \<le> end' b"
    by (simp_all add: reversible_def)
  have f: "seqid ?b' = (if last (seqid b) = CHR ''-'' then butlast (seqid b) else seqid b @ ''-'')"
    "start ?b' = sz - end' b + 1" "end' ?b' = sz - start b + 1"
    using rc_fields [of sizes b sz] look lk(2) by simp_all
  have sq: "seqid ?b' = (if seqid b = base then base @ ''-'' else base)"
    using s nb f(1) by auto
  have le': "start ?b' \<le> end' ?b'" using f le by simp
  from r consider
      (unset) "strand b = None \<or> strand b = Some []"
    | (plus) xs where "strand b = Some ''+''" "extra b = Some xs" "1 < length xs"
    | (minus) xs where "strand b = Some ''-''" "extra b = Some xs" "1 < length xs"
    by (auto simp: reversible_def split: option.splits)
  then have st: "fst (reverse_complement sizes b) = None
      \<and> strand ?b' = (if strand b = Some ''+'' then Some ''-''
         else if strand b = Some ''-'' then Some ''+'' else strand b)
      \<and> (strand ?b' = None \<or> strand ?b' = Some []
          \<or> ((strand ?b' = Some ''+'' \<or> strand ?b' = Some ''-'')
              \<and> (case extra ?b' of None \<Rightarrow> False | Some xs \<Rightarrow> 1 < length xs)))"
  proof cases
    case unset
    from rc_strand_unset [of sizes b sz] look lk(2) le unset show ?thesis by auto
  next
    case plus
    have "flip_strand ''+'' = Inr ''-''" by (simp add: flip_strand_def)
    from rc_strand_set [of sizes b sz "''+''" "''-''" xs] this look lk(2) le plus
    show ?thesis by simp
  next
    case minus
    have "flip_strand ''-'' = Inr ''+''" by (simp add: flip_strand_def)
    from rc_strand_set [of sizes b sz "''-''" "''+''" xs] this look lk(2) le minus
    show ?thesis by simp
  qed
  have "reversible sizes base ?b'"
    unfolding reversible_def using nb sq le' st sz by auto
  with st sq f sz show ?thesis by simp
qed

text \<open>With at most one marker, removing every trailing \<open>-\<close> removes that marker.\<close>

lemma rstrip_char_one_marker:
  assumes "s \<noteq> []" and "\<not> suffix [c, c] s"
  shows "rstrip_char c s = (if last s = c then butlast s else s)"
proof (cases s rule: rev_cases)
  case Nil
  with assms show ?thesis by simp
next
  case (snoc p x)
  show ?thesis
  proof (cases "x = c")
    case False
    with snoc show ?thesis by (simp add: rstrip_char_keep)
  next
    case True
    have "rstrip_char c p = p"
    proof (cases p rule: rev_cases)
      case Nil
      then show ?thesis by (simp add: rstrip_char_def)
    next
      case (snoc q y)
      with \<open>s = p @ [x]\<close> True assms(2) have "y \<noteq> c" by (auto simp: suffix_def)
      with snoc show ?thesis by (simp add: rstrip_char_keep)
    qed
    with snoc True show ?thesis by (simp add: rstrip_char_snoc)
  qed
qed

text \<open>
  C6, as the code has it. For a record whose seqid is not empty and does not end in two
  \<open>-\<close> markers, \<open>reverse_complement\<close> changes the record in place as follows. The
  marker-stripped seqid is the seqid without its trailing \<open>-\<close> if it has one, and the
  seqid itself if it has none. When the size table does not know the marker-stripped
  seqid, the call fails with the table's \<open>NotFound\<close> and the record is as before.
  Otherwise, with \<open>sz\<close> the size the table has for the marker-stripped seqid: the
  trailing \<open>-\<close> of the seqid is removed if there is one and appended if there is none;
  the coordinates become \<open>sz - end + 1\<close> and \<open>sz - start + 1\<close>; an unset strand is left
  as it is, with \<open>extra\<close>; a strand \<open>+\<close> becomes \<open>-\<close> and a strand \<open>-\<close> becomes
  \<open>+\<close>, and the new value is also written into position 1 of \<open>extra\<close>.
\<close>

theorem reverse_complement_marker:
  assumes "seqid b \<noteq> []" and "\<not> suffix ''--'' (seqid b)"
  shows
  "(sizes (if last (seqid b) = CHR ''-'' then butlast (seqid b) else seqid b) = None \<longrightarrow>
      reverse_complement sizes b = (Some NotFound, b))
   \<and> (\<forall>sz. sizes (if last (seqid b) = CHR ''-'' then butlast (seqid b) else seqid b) = Some sz \<longrightarrow>
        seqid (snd (reverse_complement sizes b)) =
          (if last (seqid b) = CHR ''-'' then butlast (seqid b) else seqid b @ ''-'')
        \<and> start (snd (reverse_complement sizes b)) = sz - end' b + 1
        \<and> end' (snd (reverse_complement sizes b)) = sz - start b + 1
        \<and> (start b \<le> end' b \<and> strand b = None \<longrightarrow>
              fst (reverse_complement sizes b) = None
              \<and> strand (snd (reverse_complement sizes b)) = None
              \<and> extra (snd (reverse_complement sizes b)) = extra b)
        \<and> (\<forall>xs. start b \<le> end' b \<and> strand b = Some ''+'' \<and> extra b = Some xs \<and> 1 < length xs \<longrightarrow>
              fst (reverse_complement sizes b) = None
              \<and> strand (snd (reverse_complement sizes b)) = Some ''-''
              \<and> extra (snd (reverse_complement sizes b)) = Some (xs[1 := ''-'']))
        \<and> (\<forall>xs. start b \<le> end' b \<and> strand b = Some ''-'' \<and> extra b = Some xs \<and> 1 < length xs \<longrightarrow>
              fst (reverse_complement sizes b) = None
              \<and> strand (snd (reverse_complement sizes b)) = Some ''+''
              \<and> extra (snd (reverse_complement sizes b)) = Some (xs[1 := ''+''])))"
proof -
  have k: "rstrip_char CHR ''-'' (seqid b)
      = (if last (seqid b) = CHR ''-'' then butlast (seqid b) else seqid b)"
    using assms by (rule rstrip_char_one_marker)
  show ?thesis
    using reverse_complement_rstrip [of sizes b] assms(1)
    by (simp only: k [symmetric]) blast
qed

theorem reverse_complement_marker_witness:
  "''chr1-'' \<noteq> [] \<and> \<not> suffix ''--'' ''chr1-''
   \<and> last ''chr1-'' = CHR ''-'' \<and> butlast ''chr1-'' = ''chr1''
   \<and> [''chr1'' \<mapsto> (100::int)] ''chr1'' = Some 100
   \<and> fst (reverse_complement [''chr1'' \<mapsto> 100]
     \<lparr>seqid = ''chr1-'', start = 10, end' = 20, accn = ''g3'',
       extra = Some [''0'', ''-'', ''x''], score = Some ''0'', strand = Some ''-''\<rparr>) = None
   \<and> seqid (snd (reverse_complement [''chr1'' \<mapsto> 100]
     \<lparr>seqid = ''chr1-'', start = 10, end' = 20, accn = ''g3'',
       extra = Some [''0'', ''-'', ''x''], score = Some ''0'', strand = Some ''-''\<rparr>)) = ''chr1''
   \<and> start (snd (reverse_complement [''chr1'' \<mapsto> 100]
     \<lparr>seqid = ''chr1-'', start = 10, end' = 20, accn = ''g3'',
       extra = Some [''0'', ''-'', ''x''], score = Some ''0'', strand = Some ''-''\<rparr>)) = 81
   \<and> end' (snd (reverse_complement [''chr1'' \<mapsto> 100]
     \<lparr>seqid = ''chr1-'', start = 10, end' = 20, accn = ''g3'',
       extra = Some [''0'', ''-'', ''x''], score = Some ''0'', strand = Some ''-''\<rparr>)) = 91
   \<and> strand (snd (reverse_complement [''chr1'' \<mapsto> 100]
     \<lparr>seqid = ''chr1-'', start = 10, end' = 20, accn = ''g3'',
       extra = Some [''0'', ''-'', ''x''], score = Some ''0'', strand = Some ''-''\<rparr>)) = Some ''+''
   \<and> extra (snd (reverse_complement [''chr1'' \<mapsto> 100]
     \<lparr>seqid = ''chr1-'', start = 10, end' = 20, accn = ''g3'',
       extra = Some [''0'', ''-'', ''x''], score = Some ''0'', strand = Some ''-''\<rparr>))
       = Some [''0'', ''+'', ''x'']
   \<and> [''chr1'' \<mapsto> (100::int)] ''chr3'' = None
   \<and> reverse_complement [''chr1'' \<mapsto> 100]
     \<lparr>seqid = ''chr3-'', start = 10, end' = 20, accn = ''g4'',
       extra = None, score = None, strand = None\<rparr>
     = (Some NotFound, \<lparr>seqid = ''chr3-'', start = 10, end' = 20, accn = ''g4'',
       extra = None, score = None, strand = None\<rparr>)"
proof -
  let ?b = "\<lparr>seqid = ''chr1-'', start = 10, end' = 20, accn = ''g3'',
       extra = Some [''0'', ''-'', ''x''], score = Some ''0'', strand = Some ''-''\<rparr>"
  let ?c = "\<lparr>seqid = ''chr3-'', start = 10, end' = 20, accn = ''g4'',
       extra = None, score = None, strand = None\<rparr>"
  have s1: "\<not> suffix ''--'' ''chr1-''" by (simp add: suffix_to_prefix)
  have s3: "\<not> suffix ''--'' ''chr3-''" by (simp add: suffix_to_prefix)
  have hb: "seqid ?b \<noteq> []" "\<not> suffix ''--'' (seqid ?b)" using s1 by simp_all
  have hc: "seqid ?c \<noteq> []" "\<not> suffix ''--'' (seqid ?c)" using s3 by simp_all
  from reverse_complement_marker [OF hb, of "[''chr1'' \<mapsto> 100]"]
       reverse_complement_marker [OF hc, of "[''chr1'' \<mapsto> 100]"] s1
  show ?thesis by simp
qed

text \<open>
  C6 as stated fails for a seqid that ends in two markers. The line
  \<open>chr1--<TAB>0<TAB>10<TAB>g1\<close> parses; the call removes one marker, so the
  marker-stripped seqid is \<open>chr1-\<close>, but the size is looked up for \<open>chr1\<close>, since
  \<open>rstrip('-')\<close> removes every trailing marker. With a table that knows \<open>chr1-\<close>
  only, the call fails with \<open>NotFound\<close>; with a table that has 100 for \<open>chr1-\<close> and 50
  for \<open>chr1\<close>, the new coordinates are those of the size 50.
\<close>

theorem reverse_complement_marker_counterexample:
  "BedLine_init (''chr1--'' @ [TAB] @ ''0'' @ [TAB] @ ''10'' @ [TAB] @ ''g1'' @ [CHR 0x0A])
     = Inr \<lparr>seqid = ''chr1--'', start = 1, end' = 10, accn = ''g1'',
            extra = None, score = None, strand = None\<rparr>
   \<and> last ''chr1--'' = CHR ''-'' \<and> butlast ''chr1--'' = ''chr1-''
   \<and> [''chr1-'' \<mapsto> (100::int)] ''chr1-'' = Some 100
   \<and> reverse_complement [''chr1-'' \<mapsto> 100]
        \<lparr>seqid = ''chr1--'', start = 1, end' = 10, accn = ''g1'',
          extra = None, score = None, strand = None\<rparr>
     = (Some NotFound, \<lparr>seqid = ''chr1--'', start = 1, end' = 10, accn = ''g1'',
          extra = None, score = None, strand = None\<rparr>)
   \<and> [''chr1-'' \<mapsto> (100::int), ''chr1'' \<mapsto> 50] ''chr1-'' = Some 100
   \<and> reverse_complement [''chr1-'' \<mapsto> 100, ''chr1'' \<mapsto> 50]
        \<lparr>seqid = ''chr1--'', start = 1, end' = 10, accn = ''g1'',
          extra = None, score = None, strand = None\<rparr>
     = (None, \<lparr>seqid = ''chr1-'', start = 41, end' = 50, accn = ''g1'',
          extra = None, score = None, strand = None\<rparr>)
   \<and> (100::int) - 10 + 1 \<noteq> 41"
  by code_simp

text \<open>
  C7, as the code has it. Two calls of \<open>reverse_complement\<close> with the same size table
  both return and give back the seqid, \<open>start\<close>, \<open>end\<close> and the strand of the record,
  provided the seqid is a non-empty name that does not itself end in \<open>-\<close>, with or
  without one \<open>-\<close> marker, the table knows the size of that name, \<open>start \<le> end\<close>, and
  the strand is unset, empty, or \<open>+\<close> or \<open>-\<close> with at least two entries in
  \<open>extra\<close>.
\<close>

theorem reverse_complement_twice:
  assumes "base \<noteq> []" and "last base \<noteq> CHR ''-''"
    and "seqid b = base \<or> seqid b = base @ ''-''"
    and "sizes base = Some sz"
    and "start b \<le> end' b"
    and "strand b = None \<or> strand b = Some []
          \<or> ((strand b = Some ''+'' \<or> strand b = Some ''-'')
              \<and> (\<exists>xs. extra b = Some xs \<and> 1 < length xs))"
  shows "fst (reverse_complement sizes b) = None
    \<and> fst (reverse_complement sizes (snd (reverse_complement sizes b))) = None
    \<and> seqid (snd (reverse_complement sizes (snd (reverse_complement sizes b)))) = seqid b
    \<and> start (snd (reverse_complement sizes (snd (reverse_complement sizes b)))) = start b
    \<and> end' (snd (reverse_complement sizes (snd (reverse_complement sizes b)))) = end' b
    \<and> strand (snd (reverse_complement sizes (snd (reverse_complement sizes b)))) = strand b"
proof -
  have r: "reversible sizes base b"
    unfolding reversible_def using assms by (auto split: option.splits)
  note one = reversible_step [OF r]
  then have r1: "reversible sizes base (snd (reverse_complement sizes b))" by simp
  note two = reversible_step [OF r1]
  from assms have s: "seqid b = base \<or> seqid b = base @ ''-''" by simp
  have "seqid (snd (reverse_complement sizes (snd (reverse_complement sizes b)))) = seqid b"
    using one two s by auto
  moreover have "strand (snd (reverse_complement sizes (snd (reverse_complement sizes b)))) = strand b"
    using one two by auto
  moreover have "start (snd (reverse_complement sizes (snd (reverse_complement sizes b)))) = start b"
    "end' (snd (reverse_complement sizes (snd (reverse_complement sizes b)))) = end' b"
    using one two by simp_all
  ultimately show ?thesis using one two by simp
qed

theorem reverse_complement_twice_witness:
  "''chr1'' \<noteq> [] \<and> last ''chr1'' \<noteq> CHR ''-''
   \<and> [''chr1'' \<mapsto> (100::int)] ''chr1'' = Some 100
   \<and> fst (reverse_complement [''chr1'' \<mapsto> 100]
     \<lparr>seqid = ''chr1-'', start = 10, end' = 20, accn = ''g3'',
       extra = Some [''0'', ''+''], score = Some ''0'', strand = Some ''+''\<rparr>) = None
   \<and> fst (reverse_complement [''chr1'' \<mapsto> 100] (snd (reverse_complement [''chr1'' \<mapsto> 100]
     \<lparr>seqid = ''chr1-'', start = 10, end' = 20, accn = ''g3'',
       extra = Some [''0'', ''+''], score = Some ''0'', strand = Some ''+''\<rparr>))) = None
   \<and> seqid (snd (reverse_complement [''chr1'' \<mapsto> 100] (snd (reverse_complement [''chr1'' \<mapsto> 100]
     \<lparr>seqid = ''chr1-'', start = 10, end' = 20, accn = ''g3'',
       extra = Some [''0'', ''+''], score = Some ''0'', strand = Some ''+''\<rparr>)))) = ''chr1-''
   \<and> start (snd (reverse_complement [''chr1'' \<mapsto> 100] (snd (reverse_complement [''chr1'' \<mapsto> 100]
     \<lparr>seqid = ''chr1-'', start = 10, end' = 20, accn = ''g3'',
       extra = Some [''0'', ''+''], score = Some ''0'', strand = Some ''+''\<rparr>)))) = 10
   \<and> end' (snd (reverse_complement [''chr1'' \<mapsto> 100] (snd (reverse_complement [''chr1'' \<mapsto> 100]
     \<lparr>seqid = ''chr1-'', start = 10, end' = 20, accn = ''g3'',
       extra = Some [''0'', ''+''], score = Some ''0'', strand = Some ''+''\<rparr>)))) = 20
   \<and> strand (snd (reverse_complement [''chr1'' \<mapsto> 100] (snd (reverse_complement [''chr1'' \<mapsto> 100]
     \<lparr>seqid = ''chr1-'', start = 10, end' = 20, accn = ''g3'',
       extra = Some [''0'', ''+''], score = Some ''0'', strand = Some ''+''\<rparr>)))) = Some ''+''"
  using reverse_complement_twice [of "''chr1''"
     "\<lparr>seqid = ''chr1-'', start = 10, end' = 20, accn = ''g3'',
       extra = Some [''0'', ''+''], score = Some ''0'', strand = Some ''+''\<rparr>"
     "[''chr1'' \<mapsto> 100]" 100]
  by simp

text \<open>
  C7 as stated fails for a seqid that ends in two markers: the line
  \<open>chr1--<TAB>0<TAB>10<TAB>g1\<close> parses, both calls return (the table is asked for
  \<open>chr1\<close> both times, since \<open>rstrip('-')\<close> removes every trailing marker), and the
  seqid after the second call is \<open>chr1\<close>, not \<open>chr1--\<close>: each call removes one
  marker as long as there is one.
\<close>

theorem reverse_complement_twice_counterexample:
  "BedLine_init (''chr1--'' @ [TAB] @ ''0'' @ [TAB] @ ''10'' @ [TAB] @ ''g1'' @ [CHR 0x0A])
     = Inr \<lparr>seqid = ''chr1--'', start = 1, end' = 10, accn = ''g1'',
            extra = None, score = None, strand = None\<rparr>
   \<and> reverse_complement [''chr1'' \<mapsto> 100]
        \<lparr>seqid = ''chr1--'', start = 1, end' = 10, accn = ''g1'',
          extra = None, score = None, strand = None\<rparr>
     = (None, \<lparr>seqid = ''chr1-'', start = 91, end' = 100, accn = ''g1'',
          extra = None, score = None, strand = None\<rparr>)
   \<and> reverse_complement [''chr1'' \<mapsto> 100]
        \<lparr>seqid = ''chr1-'', start = 91, end' = 100, accn = ''g1'',
          extra = None, score = None, strand = None\<rparr>
     = (None, \<lparr>seqid = ''chr1'', start = 1, end' = 10, accn = ''g1'',
          extra = None, score = None, strand = None\<rparr>)
   \<and> ''chr1'' \<noteq> ''chr1--''"
  by code_simp

text \<open>
  C10. For a record with \<open>start \<le> end\<close> the assertion after the new coordinates never
  fails, whatever the size table returns: no call ends in an \<open>AssertionError\<close>. With a
  size \<open>sz\<close> found (and a non-empty seqid) the new coordinates are \<open>sz - end + 1\<close> and
  \<open>sz - start + 1\<close>, in order; a size below the record's \<open>end\<close> gives a new \<open>start\<close>
  of at most 0, and with an unset strand the call returns normally.
\<close>

theorem reverse_complement_revalidation:
  assumes "start b \<le> end' b"
  shows "(\<forall>m. fst (reverse_complement sizes b) \<noteq> Some (AssertionError m))
    \<and> (\<forall>sz. sizes (rstrip_char CHR ''-'' (seqid b)) = Some sz \<and> seqid b \<noteq> [] \<longrightarrow>
          start (snd (reverse_complement sizes b)) = sz - end' b + 1
          \<and> end' (snd (reverse_complement sizes b)) = sz - start b + 1
          \<and> start (snd (reverse_complement sizes b)) \<le> end' (snd (reverse_complement sizes b))
          \<and> (sz < end' b \<longrightarrow> start (snd (reverse_complement sizes b)) \<le> 0)
          \<and> (sz < end' b \<and> strand b = None \<longrightarrow> fst (reverse_complement sizes b) = None))"
proof (intro conjI allI impI)
  fix m show "fst (reverse_complement sizes b) \<noteq> Some (AssertionError m)"
    using assms by (rule rc_assert)
next
  fix sz assume a: "sizes (rstrip_char CHR ''-'' (seqid b)) = Some sz \<and> seqid b \<noteq> []"
  then have f: "start (snd (reverse_complement sizes b)) = sz - end' b + 1"
      "end' (snd (reverse_complement sizes b)) = sz - start b + 1"
    using rc_fields [of sizes b sz] by simp_all
  show "start (snd (reverse_complement sizes b)) = sz - end' b + 1" by (rule f)
  show "end' (snd (reverse_complement sizes b)) = sz - start b + 1" by (rule f)
  show "start (snd (reverse_complement sizes b)) \<le> end' (snd (reverse_complement sizes b))"
    using f assms by simp
  { assume "sz < end' b"
    then show "start (snd (reverse_complement sizes b)) \<le> 0" using f by simp }
  { assume "sz < end' b \<and> strand b = None"
    then show "fst (reverse_complement sizes b) = None"
      using rc_strand_unset [of sizes b sz] a assms by simp }
qed

theorem reverse_complement_revalidation_witness:
  "start \<lparr>seqid = ''chr1'', start = 10, end' = 20, accn = ''g3'',
       extra = None, score = None, strand = None\<rparr>
    \<le> end' \<lparr>seqid = ''chr1'', start = 10, end' = 20, accn = ''g3'',
       extra = None, score = None, strand = None\<rparr>
   \<and> fst (reverse_complement [''chr1'' \<mapsto> 15]
       \<lparr>seqid = ''chr1'', start = 10, end' = 20, accn = ''g3'',
         extra = None, score = None, strand = None\<rparr>) = None
   \<and> start (snd (reverse_complement [''chr1'' \<mapsto> 15]
       \<lparr>seqid = ''chr1'', start = 10, end' = 20, accn = ''g3'',
         extra = None, score = None, strand = None\<rparr>)) = - 4
   \<and> end' (snd (reverse_complement [''chr1'' \<mapsto> 15]
       \<lparr>seqid = ''chr1'', start = 10, end' = 20, accn = ''g3'',
         extra = None, score = None, strand = None\<rparr>)) = 6"
  using reverse_complement_revalidation [of
       "\<lparr>seqid = ''chr1'', start = 10, end' = 20, accn = ''g3'',
         extra = None, score = None, strand = None\<rparr>" "[''chr1'' \<mapsto> 15]"]
  by (simp add: rstrip_char_def)


section \<open>The order index\<close>

lemma dict_snoc: "dict (kvs @ [(k, v)]) = (dict kvs)(k \<mapsto> v)"
  by (simp add: dict_def dict_put_def)

lemma order_snoc:
  "dict (map (\<lambda>(i, f). (accn f, (i, f))) (enumerate 0 (xs @ [x])))
     = (dict (map (\<lambda>(i, f). (accn f, (i, f))) (enumerate 0 xs)))(accn x \<mapsto> (length xs, x))"
  by (simp add: enumerate_append_eq dict_snoc)

lemma order_char:
  "(dict (map (\<lambda>(i, f). (accn f, (i, f))) (enumerate 0 xs)) a = Some (i, f))
     = (i < length xs \<and> xs ! i = f \<and> accn f = a
        \<and> (\<forall>j. i < j \<and> j < length xs \<longrightarrow> accn (xs ! j) \<noteq> a))"
proof (induction xs arbitrary: i f rule: rev_induct)
  case Nil
  show ?case by (simp add: dict_def)
next
  case (snoc x xs)
  show ?case
  proof (cases "accn x = a")
    case True
    have "(i < Suc (length xs) \<and> (xs @ [x]) ! i = f \<and> accn f = a
        \<and> (\<forall>j. i < j \<and> j < Suc (length xs) \<longrightarrow> accn ((xs @ [x]) ! j) \<noteq> a))
       = (i = length xs \<and> f = x)"
    proof
      assume h: "i < Suc (length xs) \<and> (xs @ [x]) ! i = f \<and> accn f = a
        \<and> (\<forall>j. i < j \<and> j < Suc (length xs) \<longrightarrow> accn ((xs @ [x]) ! j) \<noteq> a)"
      have "\<not> i < length xs"
      proof
        assume "i < length xs"
        with h have "accn ((xs @ [x]) ! length xs) \<noteq> a" by blast
        with True show False by simp
      qed
      with h have "i = length xs" by simp
      with h show "i = length xs \<and> f = x" by auto
    next
      assume "i = length xs \<and> f = x"
      with True show "i < Suc (length xs) \<and> (xs @ [x]) ! i = f \<and> accn f = a
        \<and> (\<forall>j. i < j \<and> j < Suc (length xs) \<longrightarrow> accn ((xs @ [x]) ! j) \<noteq> a)" by auto
    qed
    with True show ?thesis unfolding order_snoc by auto
  next
    case False
    have "(i < Suc (length xs) \<and> (xs @ [x]) ! i = f \<and> accn f = a
        \<and> (\<forall>j. i < j \<and> j < Suc (length xs) \<longrightarrow> accn ((xs @ [x]) ! j) \<noteq> a))
       = (i < length xs \<and> xs ! i = f \<and> accn f = a
        \<and> (\<forall>j. i < j \<and> j < length xs \<longrightarrow> accn (xs ! j) \<noteq> a))"
      using False by (auto simp: nth_append less_Suc_eq)
    with False snoc.IH [of i f] show ?thesis
      unfolding order_snoc by simp
  qed
qed

lemma order_dom:
  "dom (dict (map (\<lambda>(i, f). (accn f, (i, f))) (enumerate 0 xs))) = accn ` set xs"
proof (induction xs rule: rev_induct)
  case Nil
  show ?case by (simp add: dict_def)
next
  case (snoc x xs)
  have "dom (dict (map (\<lambda>(i, f). (accn f, (i, f))) (enumerate 0 (xs @ [x]))))
      = insert (accn x) (dom (dict (map (\<lambda>(i, f). (accn f, (i, f))) (enumerate 0 xs))))"
    unfolding order_snoc by simp
  with snoc show ?case by simp
qed

text \<open>
  C8. \<open>order\<close> maps an accession \<open>a\<close> to \<open>(i, f)\<close> exactly when \<open>f\<close> is the record
  at the 0-based position \<open>i\<close> of the collection, its accession is \<open>a\<close>, and no record
  at a later position has the accession \<open>a\<close>: of several records with one accession the
  last one in a left-to-right pass is the one kept. The keys of the index are the
  accessions of the collection.
\<close>

theorem order_last_wins:
  "(order bed a = Some (i, f))
     = (i < length (items bed) \<and> items bed ! i = f \<and> accn f = a
        \<and> (\<forall>j. i < j \<and> j < length (items bed) \<longrightarrow> accn (items bed ! j) \<noteq> a))
   \<and> dom (order bed) = accn ` set (items bed)"
  unfolding order_def by (simp only: order_char order_dom)

theorem order_last_wins_witness:
  "order \<lparr>key = default_key, items =
      [\<lparr>seqid = ''chr1'', start = 10, end' = 20, accn = ''g1'', extra = None, score = None, strand = None\<rparr>,
       \<lparr>seqid = ''chr1'', start = 50, end' = 80, accn = ''g2'', extra = None, score = None, strand = None\<rparr>,
       \<lparr>seqid = ''chr2'', start = 100, end' = 200, accn = ''g1'', extra = None, score = None, strand = None\<rparr>]\<rparr>
     ''g1''
   = Some (2, \<lparr>seqid = ''chr2'', start = 100, end' = 200, accn = ''g1'', extra = None, score = None, strand = None\<rparr>)"
proof -
  let ?r = "\<lparr>seqid = ''chr2'', start = 100, end' = 200, accn = ''g1'', extra = None, score = None, strand = None\<rparr>"
  let ?bed = "\<lparr>key = default_key, items =
      [\<lparr>seqid = ''chr1'', start = 10, end' = 20, accn = ''g1'', extra = None, score = None, strand = None\<rparr>,
       \<lparr>seqid = ''chr1'', start = 50, end' = 80, accn = ''g2'', extra = None, score = None, strand = None\<rparr>,
       ?r]\<rparr>"
  have "2 < length (items ?bed) \<and> items ?bed ! 2 = ?r \<and> accn ?r = ''g1''
        \<and> (\<forall>j. 2 < j \<and> j < length (items ?bed) \<longrightarrow> accn (items ?bed ! j) \<noteq> ''g1'')"
    by auto
  with order_last_wins [of ?bed "''g1''" 2 ?r] show ?thesis by blast
qed


section \<open>Grouping by seqid\<close>

lemma mset_groups:
  "distinct ss \<Longrightarrow>
   mset (concat (map (\<lambda>s. filter (\<lambda>b. f b = s) xs) ss)) = mset (filter (\<lambda>b. f b \<in> set ss) xs)"
proof (induction ss)
  case Nil
  show ?case by simp
next
  case (Cons s ss)
  have "mset (filter (\<lambda>b. f b = s) xs) + mset (filter (\<lambda>b. f b \<in> set ss) xs)
      = mset (filter (\<lambda>b. f b \<in> set (s # ss)) xs)"
    using Cons.prems by (induction xs) auto
  with Cons show ?case by simp
qed

lemma sorted_groups:
  "sorted ss \<Longrightarrow> sorted (map f (concat (map (\<lambda>s. filter (\<lambda>b. f b = s) xs) ss)))"
proof (induction ss)
  case Nil
  show ?case by simp
next
  case (Cons s ss)
  have "sorted (map f (filter (\<lambda>b. f b = s) xs))"
    by (induction xs) (auto)
  with Cons show ?case
    by (auto simp: sorted_append)
qed

lemma filter_groups:
  "distinct ss \<Longrightarrow>
   filter (\<lambda>b. f b = v) (concat (map (\<lambda>s. filter (\<lambda>b. f b = s) xs) ss))
     = (if v \<in> set ss then filter (\<lambda>b. f b = v) xs else [])"
proof (induction ss)
  case Nil
  show ?case by simp
next
  case (Cons s ss)
  have a: "filter (\<lambda>b. f b = v) (filter (\<lambda>b. f b = s) xs) = (if v = s then filter (\<lambda>b. f b = v) xs else [])"
    by (induction xs) auto
  from Cons.prems have d: "distinct ss" and n: "s \<notin> set ss" by simp_all
  note ih = Cons.IH [OF d]
  show ?case
  proof (cases "v = s")
    case True
    with n have "v \<notin> set ss" by simp
    with ih a True show ?thesis by simp
  next
    case False
    with ih a show ?thesis by simp
  qed
qed

lemma groups_sorted_id:
  assumes "sorted (map f xs)"
  shows "concat (map (\<lambda>s. filter (\<lambda>b. f b = s) xs) (sort (remdups (map f xs)))) = xs"
proof -
  let ?ss = "sort (remdups (map f xs))"
  let ?ys = "concat (map (\<lambda>s. filter (\<lambda>b. f b = s) xs) ?ss)"
  have d: "distinct ?ss" and st: "sorted ?ss" and se: "set ?ss = f ` set xs" by simp_all
  have m: "mset ?ys = mset xs"
    using mset_groups [OF d, of f xs] se by simp
  have s: "sorted (map f ?ys)" using sorted_groups [OF st] .
  have fl: "filter (\<lambda>x. f k = f x) ?ys = filter (\<lambda>x. f k = f x) xs" if "k \<in> set ?ys" for k
  proof -
    from that have "k \<in> set ?ys" .
    then have "k \<in> set xs" using m by (metis set_mset_mset)
    then have "f k \<in> set ?ss" using se by simp
    then have "filter (\<lambda>b. f b = f k) ?ys = filter (\<lambda>b. f b = f k) xs"
      using filter_groups [OF d, of f "f k" xs] by simp
    then show ?thesis
      by (simp add: eq_commute)
  qed
  have "sort_key f xs = ?ys" using m fl s by (rule properties_for_sort_key)
  moreover have "sort_key f xs = xs" using assms by (rule sort_key_id_if_sorted)
  ultimately show ?thesis by simp
qed

text \<open>
  C9. \<open>seqids\<close> lists the seqids of the collection, each once, in strictly ascending
  lexical order. \<open>sub_bed bed s\<close> is the records with seqid \<open>s\<close>, in the order of the
  collection. The groups of all \<open>seqids\<close> together hold every record of the collection
  as often as the collection does, and two different seqids share no record. When the
  collection is ordered by seqid (as the default key orders it), the groups one after
  the other are the collection itself.
\<close>

theorem seqids_sub_bed_partition:
  "sorted_wrt (<) (seqids bed)
   \<and> set (seqids bed) = seqid ` set (items bed)
   \<and> sub_bed bed s = filter (\<lambda>b. seqid b = s) (items bed)
   \<and> mset (concat (map (sub_bed bed) (seqids bed))) = mset (items bed)
   \<and> (s \<noteq> t \<longrightarrow> set (sub_bed bed s) \<inter> set (sub_bed bed t) = {})
   \<and> (sorted (map seqid (items bed)) \<longrightarrow> concat (map (sub_bed bed) (seqids bed)) = items bed)"
proof -
  have d: "distinct (seqids bed)" and st: "sorted (seqids bed)"
    and se: "set (seqids bed) = seqid ` set (items bed)"
    by (simp_all add: seqids_def)
  have sb: "sub_bed bed = (\<lambda>s. filter (\<lambda>b. seqid b = s) (items bed))"
    by (rule ext) (simp add: sub_bed_def)
  have "sorted_wrt (<) (seqids bed)" using d st by (simp add: strict_sorted_iff)
  moreover have "mset (concat (map (sub_bed bed) (seqids bed))) = mset (items bed)"
    unfolding sb using mset_groups [OF d, of seqid "items bed"] se by simp
  moreover have "s \<noteq> t \<longrightarrow> set (sub_bed bed s) \<inter> set (sub_bed bed t) = {}"
    by (auto simp: sub_bed_def)
  moreover have "sorted (map seqid (items bed)) \<longrightarrow> concat (map (sub_bed bed) (seqids bed)) = items bed"
    unfolding sb seqids_def using groups_sorted_id [of seqid "items bed"] by simp
  ultimately show ?thesis using se by (simp add: sub_bed_def)
qed

theorem seqids_sub_bed_partition_witness:
  "sorted (map seqid (items \<lparr>key = default_key, items =
      [\<lparr>seqid = ''chr1'', start = 10, end' = 20, accn = ''g3'', extra = None, score = None, strand = None\<rparr>,
       \<lparr>seqid = ''chr1'', start = 50, end' = 80, accn = ''g2'', extra = None, score = None, strand = None\<rparr>,
       \<lparr>seqid = ''chr2'', start = 100, end' = 200, accn = ''g1'', extra = None, score = None, strand = None\<rparr>]\<rparr>))
   \<and> ''chr1'' \<noteq> ''chr2''
   \<and> concat (map (sub_bed \<lparr>key = default_key, items =
      [\<lparr>seqid = ''chr1'', start = 10, end' = 20, accn = ''g3'', extra = None, score = None, strand = None\<rparr>,
       \<lparr>seqid = ''chr1'', start = 50, end' = 80, accn = ''g2'', extra = None, score = None, strand = None\<rparr>,
       \<lparr>seqid = ''chr2'', start = 100, end' = 200, accn = ''g1'', extra = None, score = None, strand = None\<rparr>]\<rparr>)
      (seqids \<lparr>key = default_key, items =
      [\<lparr>seqid = ''chr1'', start = 10, end' = 20, accn = ''g3'', extra = None, score = None, strand = None\<rparr>,
       \<lparr>seqid = ''chr1'', start = 50, end' = 80, accn = ''g2'', extra = None, score = None, strand = None\<rparr>,
       \<lparr>seqid = ''chr2'', start = 100, end' = 200, accn = ''g1'', extra = None, score = None, strand = None\<rparr>]\<rparr>))
     = [\<lparr>seqid = ''chr1'', start = 10, end' = 20, accn = ''g3'', extra = None, score = None, strand = None\<rparr>,
       \<lparr>seqid = ''chr1'', start = 50, end' = 80, accn = ''g2'', extra = None, score = None, strand = None\<rparr>,
       \<lparr>seqid = ''chr2'', start = 100, end' = 200, accn = ''g1'', extra = None, score = None, strand = None\<rparr>]
   \<and> set (sub_bed \<lparr>key = default_key, items =
      [\<lparr>seqid = ''chr1'', start = 10, end' = 20, accn = ''g3'', extra = None, score = None, strand = None\<rparr>,
       \<lparr>seqid = ''chr1'', start = 50, end' = 80, accn = ''g2'', extra = None, score = None, strand = None\<rparr>,
       \<lparr>seqid = ''chr2'', start = 100, end' = 200, accn = ''g1'', extra = None, score = None, strand = None\<rparr>]\<rparr> ''chr1'')
     \<inter> set (sub_bed \<lparr>key = default_key, items =
      [\<lparr>seqid = ''chr1'', start = 10, end' = 20, accn = ''g3'', extra = None, score = None, strand = None\<rparr>,
       \<lparr>seqid = ''chr1'', start = 50, end' = 80, accn = ''g2'', extra = None, score = None, strand = None\<rparr>,
       \<lparr>seqid = ''chr2'', start = 100, end' = 200, accn = ''g1'', extra = None, score = None, strand = None\<rparr>]\<rparr> ''chr2'')
     = {}"
proof -
  let ?bed = "\<lparr>key = default_key, items =
      [\<lparr>seqid = ''chr1'', start = 10, end' = 20, accn = ''g3'', extra = None, score = None, strand = None\<rparr>,
       \<lparr>seqid = ''chr1'', start = 50, end' = 80, accn = ''g2'', extra = None, score = None, strand = None\<rparr>,
       \<lparr>seqid = ''chr2'', start = 100, end' = 200, accn = ''g1'', extra = None, score = None, strand = None\<rparr>]\<rparr>"
  have h: "sorted (map seqid (items ?bed))" by code_simp
  have n: "''chr1'' \<noteq> ''chr2''" by simp
  note t = seqids_sub_bed_partition [of ?bed "''chr1''" "''chr2''"]
  from t h have c: "concat (map (sub_bed ?bed) (seqids ?bed)) = items ?bed" by blast
  from t n have d: "set (sub_bed ?bed ''chr1'') \<inter> set (sub_bed ?bed ''chr2'') = {}" by blast
  have i: "items ?bed =
      [\<lparr>seqid = ''chr1'', start = 10, end' = 20, accn = ''g3'', extra = None, score = None, strand = None\<rparr>,
       \<lparr>seqid = ''chr1'', start = 50, end' = 80, accn = ''g2'', extra = None, score = None, strand = None\<rparr>,
       \<lparr>seqid = ''chr2'', start = 100, end' = 200, accn = ''g1'', extra = None, score = None, strand = None\<rparr>]"
    by simp
  from c have c': "concat (map (sub_bed ?bed) (seqids ?bed)) =
      [\<lparr>seqid = ''chr1'', start = 10, end' = 20, accn = ''g3'', extra = None, score = None, strand = None\<rparr>,
       \<lparr>seqid = ''chr1'', start = 50, end' = 80, accn = ''g2'', extra = None, score = None, strand = None\<rparr>,
       \<lparr>seqid = ''chr2'', start = 100, end' = 200, accn = ''g1'', extra = None, score = None, strand = None\<rparr>]"
    by (simp only: i)
  from h n c' d show ?thesis by blast
qed


section \<open>Parsing and printing a line\<close>

subsection \<open>Integers and fields\<close>

lemma digit_chr_val: "d < 10 \<Longrightarrow> digit_val (digit_chr d) = d"
  by (simp add: digit_val_def digit_chr_def)

lemma digit_chr_isdigit: "d < 10 \<Longrightarrow> isdigit (digit_chr d)"
  by (simp add: isdigit_def digit_chr_def less_eq_char_def)

lemma isdigit_plain:
  "isdigit c \<Longrightarrow> \<not> isspace c \<and> c \<noteq> CHR ''-'' \<and> c \<noteq> CHR ''+''"
  by (auto simp: isdigit_def isspace_def less_eq_char_def)

lemma digits_val_snoc: "digits_val (ds @ [c]) = 10 * digits_val ds + digit_val c"
  by (simp add: digits_val_def)

lemma str_nat_props:
  "str_nat n \<noteq> [] \<and> list_all isdigit (str_nat n) \<and> digits_val (str_nat n) = n"
proof (induction n rule: str_nat.induct)
  case (1 n)
  show ?case
  proof (cases "n < 10")
    case True
    then show ?thesis
      by (simp add: str_nat.simps [of n] digit_chr_isdigit digits_val_def digit_chr_val)
  next
    case False
    have m: "n mod 10 < 10" by simp
    from False 1 have ih: "str_nat (n div 10) \<noteq> []" "list_all isdigit (str_nat (n div 10))"
      "digits_val (str_nat (n div 10)) = n div 10" by simp_all
    from False have e: "str_nat n = str_nat (n div 10) @ [digit_chr (n mod 10)]"
      by (simp add: str_nat.simps [of n])
    show ?thesis
      unfolding e using ih m
      by (simp add: digits_val_snoc digit_chr_val digit_chr_isdigit)
  qed
qed

lemma strip_id:
  assumes "s \<noteq> []" and "\<not> isspace (hd s)" and "\<not> isspace (last s)"
  shows "strip s = s"
proof -
  from assms have l: "lstrip s = s" by (cases s) (simp_all add: lstrip_def)
  from assms have "dropWhile isspace (rev s) = rev s"
    by (cases s rule: rev_cases) simp_all
  then have "rstrip s = s" by (simp add: rstrip_def)
  with l show ?thesis by (simp add: strip_def)
qed

lemma parse_digits_str_nat: "parse_digits (str_nat n) = Inr n"
  using str_nat_props [of n] by (simp add: parse_digits_def)

lemma py_int_str_int: "py_int (str_int i) = Inr i"
proof (cases "i < 0")
  case True
  let ?ds = "str_nat (nat (- i))"
  from str_nat_props [of "nat (- i)"] have ne: "?ds \<noteq> []" and dg: "list_all isdigit ?ds" by simp_all
  from ne dg have "isdigit (last ?ds)" by (simp add: list_all_iff)
  then have "\<not> isspace (last (CHR ''-'' # ?ds))" using ne isdigit_plain by simp
  moreover have "\<not> isspace (hd (CHR ''-'' # ?ds))" by (simp add: isspace_def)
  ultimately have "strip (CHR ''-'' # ?ds) = CHR ''-'' # ?ds" by (intro strip_id) simp_all
  with True show ?thesis
    by (simp add: py_int_def str_int_def parse_digits_str_nat)
next
  case False
  let ?ds = "str_nat (nat i)"
  from str_nat_props [of "nat i"] have ne: "?ds \<noteq> []" and dg: "list_all isdigit ?ds" by simp_all
  from ne obtain c cs where cs: "?ds = c # cs" by (cases ?ds) auto
  from ne dg have "isdigit (last ?ds)" "isdigit (hd ?ds)" by (simp_all add: list_all_iff)
  then have pl: "\<not> isspace (last ?ds)" "\<not> isspace (hd ?ds)" "hd ?ds \<noteq> CHR ''-''" "hd ?ds \<noteq> CHR ''+''"
    using isdigit_plain by blast+
  with ne have st: "strip ?ds = ?ds" by (intro strip_id)
  from pl cs have "c \<noteq> CHR ''-''" "c \<noteq> CHR ''+''" by simp_all
  moreover have "parse_digits (c # cs) = Inr (nat i)" using parse_digits_str_nat [of "nat i"] cs by simp
  ultimately show ?thesis using False st cs
    by (simp add: py_int_def str_int_def)
qed

lemma split_not_Nil: "split sep s \<noteq> []"
  by (induction s) (auto split: list.splits)

lemma join_Cons: "ys \<noteq> [] \<Longrightarrow> join sep (x # ys) = x @ sep @ join sep ys"
  by (cases ys) simp_all

lemma join_split: "join [sep] (split sep s) = s"
proof (induction s)
  case Nil
  show ?case by simp
next
  case (Cons c cs)
  show ?case
  proof (cases "c = sep")
    case True
    with Cons show ?thesis by (simp add: join_Cons split_not_Nil)
  next
    case False
    obtain f fs where sp: "split sep cs = f # fs" using split_not_Nil [of sep cs] by (cases "split sep cs") auto
    with Cons have "join [sep] (f # fs) = cs" by simp
    then have "join [sep] ((c # f) # fs) = c # cs" by (cases fs) simp_all
    with False sp show ?thesis by simp
  qed
qed

lemma join_append: "xs \<noteq> [] \<Longrightarrow> ys \<noteq> [] \<Longrightarrow> join sep (xs @ ys) = join sep xs @ sep @ join sep ys"
  by (induction sep xs rule: join.induct) (simp_all add: join_Cons)


subsection \<open>The constructor\<close>

lemma parse_digits_error: "parse_digits ds = Inl e \<Longrightarrow> e = ValueError"
  by (simp add: parse_digits_def split: if_splits)

lemma py_int_error: "py_int s = Inl e \<Longrightarrow> e = ValueError"
  by (auto simp: py_int_def split: list.splits if_splits sum.splits dest: parse_digits_error)

lemma getitem_error: "getitem xs i = Inl e \<Longrightarrow> e = IndexError"
  by (simp add: getitem_def split: if_splits)

text \<open>What the constructor does with a line of at least three fields.\<close>

lemma BedLine_init_fields:
  assumes "split TAB (strip sline) = a0 # c1 # c2 # rest"
    and "py_int c1 = Inr s0" and "py_int c2 = Inr e0"
  shows "BedLine_init sline =
     (if \<not> s0 + 1 \<le> e0 then Inl (AssertionError (assert_msg (s0 + 1) e0))
      else case rest of
        [] \<Rightarrow> Inl IndexError
      | a3 # ex \<Rightarrow>
          Inr \<lparr> seqid = a0, start = s0 + 1, end' = e0, accn = a3,
                extra = (if ex = [] then None else Some ex),
                score = (if ex = [] then None else Some (hd ex)),
                strand = (if length ex > 1 then Some (ex ! 1) else None) \<rparr>)"
  using assms
  by (cases rest; cases "tl rest"; simp add: BedLine_init_def getitem_def Let_def)

lemma BedLine_init_assert:
  assumes "BedLine_init sline = Inl (AssertionError m)"
  shows "\<exists>a0 c1 c2 rest s0 e0. split TAB (strip sline) = a0 # c1 # c2 # rest
     \<and> py_int c1 = Inr s0 \<and> py_int c2 = Inr e0 \<and> \<not> s0 + 1 \<le> e0 \<and> m = assert_msg (s0 + 1) e0"
proof -
  let ?args = "split TAB (strip sline)"
  have l: "2 < length ?args"
  proof (rule ccontr)
    assume "\<not> 2 < length ?args"
    then have "getitem ?args 2 = Inl IndexError" by (simp add: getitem_def)
    with assms show False
      by (auto simp: BedLine_init_def Let_def split: sum.splits dest: getitem_error py_int_error)
  qed
  then obtain a0 c1 c2 rest where a: "?args = a0 # c1 # c2 # rest"
    by (cases ?args; cases "tl ?args"; cases "tl (tl ?args)") auto
  from assms a obtain s0 where s: "py_int c1 = Inr s0"
    by (cases "py_int c1") (auto simp: BedLine_init_def Let_def getitem_def dest: py_int_error)
  from assms a s obtain e0 where e: "py_int c2 = Inr e0"
    by (cases "py_int c2") (auto simp: BedLine_init_def Let_def getitem_def dest: py_int_error)
  from assms BedLine_init_fields [OF a s e]
  have "\<not> s0 + 1 \<le> e0 \<and> m = assert_msg (s0 + 1) e0"
    by (auto split: if_splits list.splits)
  with a s e show ?thesis by blast
qed

lemma BedLine_init_ordered:
  assumes "BedLine_init sline = Inr r"
  shows "start r \<le> end' r"
  using assms
  by (auto simp: BedLine_init_def Let_def split: sum.splits if_splits)

text \<open>
  C1, as the code has it. For a line whose first four tab-separated fields are a seqid,
  an integer \<open>file_start\<close>, an integer \<open>file_end\<close> and an accession, with
  \<open>file_start < file_end\<close>, the constructor returns a record with
  \<open>start = file_start + 1\<close> and \<open>end = file_end\<close>: the positions \<open>start..end\<close> of the
  record are the zero-based positions \<open>file_start..<file_end\<close> of the file, counted
  from one.
\<close>

theorem BedLine_init_coordinates:
  assumes "split TAB (strip sline) = sid # c1 # c2 # acc # rest"
    and "py_int c1 = Inr file_start" and "py_int c2 = Inr file_end"
    and "file_start < file_end"
  shows "\<exists>r. BedLine_init sline = Inr r \<and> seqid r = sid \<and> accn r = acc
    \<and> start r = file_start + 1 \<and> end' r = file_end
    \<and> {start r..end' r} = (\<lambda>p. p + 1) ` {file_start..<file_end}"
proof -
  have "{file_start + 1..file_end} = (\<lambda>p. p + 1) ` {file_start..<file_end}"
  proof (rule set_eqI)
    fix x
    have "x \<in> {file_start + 1..file_end} \<Longrightarrow> x - 1 \<in> {file_start..<file_end} \<and> x = (x - 1) + 1"
      by simp
    then show "(x \<in> {file_start + 1..file_end}) = (x \<in> (\<lambda>p. p + 1) ` {file_start..<file_end})"
      by auto
  qed
  with BedLine_init_fields [OF assms(1-3)] assms(4) show ?thesis by simp
qed

theorem BedLine_init_coordinates_witness:
  "split TAB (strip (''chr1'' @ [TAB] @ ''10'' @ [TAB] @ ''20'' @ [TAB] @ ''g1'' @ [CHR 0x0A]))
     = [''chr1'', ''10'', ''20'', ''g1'']
   \<and> py_int ''10'' = Inr 10 \<and> py_int ''20'' = Inr 20 \<and> (10::int) < 20
   \<and> (\<exists>r. BedLine_init (''chr1'' @ [TAB] @ ''10'' @ [TAB] @ ''20'' @ [TAB] @ ''g1'' @ [CHR 0x0A]) = Inr r
        \<and> start r = 11 \<and> end' r = 20)"
proof -
  let ?l = "''chr1'' @ [TAB] @ ''10'' @ [TAB] @ ''20'' @ [TAB] @ ''g1'' @ [CHR 0x0A]"
  have a: "split TAB (strip ?l) = ''chr1'' # ''10'' # ''20'' # ''g1'' # []" by code_simp
  have b: "py_int ''10'' = Inr 10" by code_simp
  have c: "py_int ''20'' = Inr 20" by code_simp
  have d: "(10::int) < 20" by simp
  from BedLine_init_coordinates [OF a b c d]
  have "\<exists>r. BedLine_init ?l = Inr r \<and> start r = 11 \<and> end' r = 20" by auto
  with a b c d show ?thesis by blast
qed

text \<open>
  C1 as stated fails where \<open>file_start + 1 > file_end\<close>: the line
  \<open>chr1<TAB>10<TAB>5<TAB>g1\<close> has the four fields and integer coordinates, and the
  constructor returns no record for it but fails on its assertion.
\<close>

theorem BedLine_init_coordinates_counterexample:
  "split TAB (strip (''chr1'' @ [TAB] @ ''10'' @ [TAB] @ ''5'' @ [TAB] @ ''g1'' @ [CHR 0x0A]))
     = [''chr1'', ''10'', ''5'', ''g1'']
   \<and> py_int ''10'' = Inr 10 \<and> py_int ''5'' = Inr 5
   \<and> BedLine_init (''chr1'' @ [TAB] @ ''10'' @ [TAB] @ ''5'' @ [TAB] @ ''g1'' @ [CHR 0x0A])
     = Inl (AssertionError ''start=11 end=5'')"
  by code_simp

text \<open>
  C2. The constructor fails on its assertion, with the message
  \<open>start=<start> end=<end>\<close> of the converted coordinates, exactly when the line has
  integers in its second and third field and \<open>start \<le> end\<close> does not hold for
  \<open>start = file_start + 1\<close> and \<open>end = file_end\<close>. A line of four or more fields with
  integer coordinates gives a record exactly when \<open>start \<le> end\<close>. Every record the
  constructor returns has \<open>start \<le> end\<close>. The line with the file coordinates 10 and 5
  fails with the message \<open>start=11 end=5\<close>. (The exception of the failed \<open>assert\<close> is
  Python's \<open>AssertionError\<close>.)
\<close>

theorem BedLine_init_validation:
  "(BedLine_init sline = Inl (AssertionError m))
     = (\<exists>a0 c1 c2 rest s0 e0. split TAB (strip sline) = a0 # c1 # c2 # rest
          \<and> py_int c1 = Inr s0 \<and> py_int c2 = Inr e0
          \<and> \<not> s0 + 1 \<le> e0 \<and> m = ''start='' @ str_int (s0 + 1) @ '' end='' @ str_int e0)
   \<and> (\<forall>sid c1 c2 acc rest s0 e0.
         split TAB (strip sline) = sid # c1 # c2 # acc # rest
           \<and> py_int c1 = Inr s0 \<and> py_int c2 = Inr e0 \<longrightarrow>
         (\<exists>r. BedLine_init sline = Inr r) = (s0 + 1 \<le> e0))
   \<and> (\<forall>r. BedLine_init sline = Inr r \<longrightarrow> start r \<le> end' r)
   \<and> BedLine_init (''chr1'' @ [TAB] @ ''10'' @ [TAB] @ ''5'' @ [TAB] @ ''g1'')
       = Inl (AssertionError ''start=11 end=5'')"
proof (intro conjI allI impI)
  show "(BedLine_init sline = Inl (AssertionError m))
     = (\<exists>a0 c1 c2 rest s0 e0. split TAB (strip sline) = a0 # c1 # c2 # rest
          \<and> py_int c1 = Inr s0 \<and> py_int c2 = Inr e0
          \<and> \<not> s0 + 1 \<le> e0 \<and> m = ''start='' @ str_int (s0 + 1) @ '' end='' @ str_int e0)"
  proof
    assume "BedLine_init sline = Inl (AssertionError m)"
    from BedLine_init_assert [OF this]
    show "\<exists>a0 c1 c2 rest s0 e0. split TAB (strip sline) = a0 # c1 # c2 # rest
          \<and> py_int c1 = Inr s0 \<and> py_int c2 = Inr e0
          \<and> \<not> s0 + 1 \<le> e0 \<and> m = ''start='' @ str_int (s0 + 1) @ '' end='' @ str_int e0"
      by (simp only: assert_msg_def)
  next
    assume "\<exists>a0 c1 c2 rest s0 e0. split TAB (strip sline) = a0 # c1 # c2 # rest
          \<and> py_int c1 = Inr s0 \<and> py_int c2 = Inr e0
          \<and> \<not> s0 + 1 \<le> e0 \<and> m = ''start='' @ str_int (s0 + 1) @ '' end='' @ str_int e0"
    then obtain a0 c1 c2 rest s0 e0 where a: "split TAB (strip sline) = a0 # c1 # c2 # rest"
      and s: "py_int c1 = Inr s0" and e: "py_int c2 = Inr e0"
      and n: "\<not> s0 + 1 \<le> e0" and m: "m = ''start='' @ str_int (s0 + 1) @ '' end='' @ str_int e0"
      by blast
    from BedLine_init_fields [OF a s e] n m
    show "BedLine_init sline = Inl (AssertionError m)" by (simp add: assert_msg_def)
  qed
next
  fix sid c1 c2 acc rest s0 e0
  assume h: "split TAB (strip sline) = sid # c1 # c2 # acc # rest
           \<and> py_int c1 = Inr s0 \<and> py_int c2 = Inr e0"
  then have a: "split TAB (strip sline) = sid # c1 # c2 # acc # rest"
    and s: "py_int c1 = Inr s0" and e: "py_int c2 = Inr e0" by simp_all
  from BedLine_init_fields [OF a s e]
  show "(\<exists>r. BedLine_init sline = Inr r) = (s0 + 1 \<le> e0)" by simp
next
  fix r assume "BedLine_init sline = Inr r"
  then show "start r \<le> end' r" by (rule BedLine_init_ordered)
next
  show "BedLine_init (''chr1'' @ [TAB] @ ''10'' @ [TAB] @ ''5'' @ [TAB] @ ''g1'')
       = Inl (AssertionError ''start=11 end=5'')" by code_simp
qed

theorem BedLine_init_validation_witness:
  "split TAB (strip (''chr1'' @ [TAB] @ ''10'' @ [TAB] @ ''20'' @ [TAB] @ ''g1'' @ [CHR 0x0A]))
     = [''chr1'', ''10'', ''20'', ''g1'']
   \<and> py_int ''10'' = Inr 10 \<and> py_int ''20'' = Inr 20 \<and> (10::int) + 1 \<le> 20
   \<and> (\<exists>r. BedLine_init (''chr1'' @ [TAB] @ ''10'' @ [TAB] @ ''20'' @ [TAB] @ ''g1'' @ [CHR 0x0A]) = Inr r)"
proof -
  let ?l = "''chr1'' @ [TAB] @ ''10'' @ [TAB] @ ''20'' @ [TAB] @ ''g1'' @ [CHR 0x0A]"
  have a: "split TAB (strip ?l) = [''chr1'', ''10'', ''20'', ''g1'']" by code_simp
  have b: "py_int ''10'' = Inr 10" by code_simp
  have c: "py_int ''20'' = Inr 20" by code_simp
  have d: "(10::int) + 1 \<le> 20" by simp
  from BedLine_init_validation [of ?l] a b c d
  have "\<exists>r. BedLine_init ?l = Inr r" by blast
  with a b c d show ?thesis by blast
qed


subsection \<open>Printing a record\<close>

lemma BedLine_str_join:
  "BedLine_str b = join [TAB] ([seqid b, str_int (start b - 1), str_int (end' b), accn b]
      @ (case extra b of None \<Rightarrow> [] | Some xs \<Rightarrow> xs))"
proof (cases "extra b")
  case None
  then show ?thesis by (simp add: BedLine_str_def)
next
  case (Some xs)
  show ?thesis
  proof (cases "xs = []")
    case True
    with Some show ?thesis by (simp add: BedLine_str_def)
  next
    case False
    have "join [TAB] ([seqid b, str_int (start b - 1), str_int (end' b), accn b] @ xs)
        = join [TAB] [seqid b, str_int (start b - 1), str_int (end' b), accn b] @ [TAB] @ join [TAB] xs"
      using False by (intro join_append) simp_all
    with Some False show ?thesis by (simp add: BedLine_str_def Let_def)
  qed
qed

text \<open>
  C3, as the code has it. For a line of at least four tab-separated fields whose two
  coordinate fields are integers in the form \<open>str\<close> prints them (decimal digits without
  leading zeros, \<open>-\<close> only before a non-zero number, no \<open>+\<close>, no blanks) and satisfy
  \<open>file_start < file_end\<close>, the constructor returns a record, and \<open>__str__\<close> of that
  record is the line with its surrounding whitespace removed: seqid, \<open>start - 1\<close>,
  \<open>end\<close>, accn and every further field as it was, joined by tabs.
\<close>

theorem BedLine_str_roundtrip:
  assumes "split TAB (strip sline) = sid # str_int s0 # str_int e0 # acc # rest"
    and "s0 < e0"
  shows "\<exists>b. BedLine_init sline = Inr b
    \<and> BedLine_str b = strip sline
    \<and> BedLine_str b
        = join [TAB] ([seqid b, str_int (start b - 1), str_int (end' b), accn b] @ rest)"
proof -
  let ?b = "\<lparr> seqid = sid, start = s0 + 1, end' = e0, accn = acc,
                extra = (if rest = [] then None else Some rest),
                score = (if rest = [] then None else Some (hd rest)),
                strand = (if length rest > 1 then Some (rest ! 1) else None) \<rparr>"
  from BedLine_init_fields [OF assms(1) py_int_str_int py_int_str_int] assms(2)
  have i: "BedLine_init sline = Inr ?b" by simp
  have "BedLine_str ?b = join [TAB] (sid # str_int s0 # str_int e0 # acc # rest)"
    unfolding BedLine_str_join by simp
  moreover have "join [TAB] (split TAB (strip sline)) = strip sline" by (rule join_split)
  ultimately have r: "BedLine_str ?b = strip sline" using assms(1) by simp
  have j: "BedLine_str ?b
        = join [TAB] ([seqid ?b, str_int (start ?b - 1), str_int (end' ?b), accn ?b] @ rest)"
    unfolding BedLine_str_join by simp
  from i r j show ?thesis by blast
qed

theorem BedLine_str_roundtrip_witness:
  "split TAB (strip (''chr1'' @ [TAB] @ ''10'' @ [TAB] @ ''20'' @ [TAB] @ ''g1'' @ [TAB] @ ''0'' @ [TAB] @ ''+'' @ [CHR 0x0A]))
     = [''chr1'', str_int 10, str_int 20, ''g1'', ''0'', ''+'']
   \<and> (10::int) < 20
   \<and> (\<exists>b. BedLine_init (''chr1'' @ [TAB] @ ''10'' @ [TAB] @ ''20'' @ [TAB] @ ''g1'' @ [TAB] @ ''0'' @ [TAB] @ ''+'' @ [CHR 0x0A]) = Inr b
        \<and> BedLine_str b = ''chr1'' @ [TAB] @ ''10'' @ [TAB] @ ''20'' @ [TAB] @ ''g1'' @ [TAB] @ ''0'' @ [TAB] @ ''+'')"
proof -
  let ?l = "''chr1'' @ [TAB] @ ''10'' @ [TAB] @ ''20'' @ [TAB] @ ''g1'' @ [TAB] @ ''0'' @ [TAB] @ ''+'' @ [CHR 0x0A]"
  have a: "split TAB (strip ?l) = ''chr1'' # str_int 10 # str_int 20 # ''g1'' # [''0'', ''+'']"
    by code_simp
  have d: "(10::int) < 20" by simp
  have s: "strip ?l = ''chr1'' @ [TAB] @ ''10'' @ [TAB] @ ''20'' @ [TAB] @ ''g1'' @ [TAB] @ ''0'' @ [TAB] @ ''+''"
    by code_simp
  from BedLine_str_roundtrip [OF a d] obtain b where "BedLine_init ?l = Inr b"
    "BedLine_str b = strip ?l" by blast
  with s have "\<exists>b. BedLine_init ?l = Inr b
        \<and> BedLine_str b = ''chr1'' @ [TAB] @ ''10'' @ [TAB] @ ''20'' @ [TAB] @ ''g1'' @ [TAB] @ ''0'' @ [TAB] @ ''+''"
    by (metis)
  with a d show ?thesis by blast
qed

text \<open>
  C3 as stated fails for a coordinate that \<open>int\<close> accepts in another form: the line
  \<open>chr1<TAB>05<TAB>10<TAB>g1\<close> parses (with \<open>start = 6\<close>), and the record prints as
  \<open>chr1<TAB>5<TAB>10<TAB>g1\<close>, which is not the line.
\<close>

theorem BedLine_str_roundtrip_counterexample:
  "BedLine_init (''chr1'' @ [TAB] @ ''05'' @ [TAB] @ ''10'' @ [TAB] @ ''g1'' @ [CHR 0x0A])
     = Inr \<lparr>seqid = ''chr1'', start = 6, end' = 10, accn = ''g1'',
            extra = None, score = None, strand = None\<rparr>
   \<and> BedLine_str \<lparr>seqid = ''chr1'', start = 6, end' = 10, accn = ''g1'',
            extra = None, score = None, strand = None\<rparr>
     = ''chr1'' @ [TAB] @ ''5'' @ [TAB] @ ''10'' @ [TAB] @ ''g1''
   \<and> strip (''chr1'' @ [TAB] @ ''05'' @ [TAB] @ ''10'' @ [TAB] @ ''g1'' @ [CHR 0x0A])
     = ''chr1'' @ [TAB] @ ''05'' @ [TAB] @ ''10'' @ [TAB] @ ''g1''
   \<and> ''chr1'' @ [TAB] @ ''5'' @ [TAB] @ ''10'' @ [TAB] @ ''g1''
     \<noteq> ''chr1'' @ [TAB] @ ''05'' @ [TAB] @ ''10'' @ [TAB] @ ''g1''"
  by code_simp


section \<open>Loading and the sorted order\<close>

lemma load_loop_result:
  "load_loop acc ls = Inr bs \<Longrightarrow>
   \<exists>new. bs = acc @ new \<and> map Inr new = map BedLine_init (filter (\<lambda>l. take 1 l \<noteq> ''#'') ls)"
proof (induction ls arbitrary: acc)
  case Nil
  then show ?case by simp
next
  case (Cons line rest)
  show ?case
  proof (cases line)
    case Nil
    with Cons.prems show ?thesis by (simp add: getitem_def)
  next
    case (Cons c cs)
    show ?thesis
    proof (cases "c = CHR ''#''")
      case True
      with Cons Cons.prems have "load_loop acc rest = Inr bs" by (simp add: getitem_def)
      from Cons.IH [OF this] True Cons show ?thesis by simp
    next
      case False
      with Cons Cons.prems obtain b where b: "BedLine_init line = Inr b"
        and l: "load_loop (acc @ [b]) rest = Inr bs"
        by (cases "BedLine_init line") (simp_all add: getitem_def)
      from Cons.IH [OF l] obtain new where "bs = (acc @ [b]) @ new"
        "map Inr new = map BedLine_init (filter (\<lambda>l. take 1 l \<noteq> ''#'') rest)" by blast
      with b False Cons have "bs = acc @ (b # new) \<and>
        map Inr (b # new) = map BedLine_init (filter (\<lambda>l. take 1 l \<noteq> ''#'') (line # rest))"
        by simp
      then show ?thesis by blast
    qed
  qed
qed

lemma default_key_le:
  "(default_key a \<le> default_key b)
     = (seqid a < seqid b \<or> seqid a = seqid b \<and>
          (start a < start b \<or> start a = start b \<and> accn a \<le> accn b))"
  by (auto simp: default_key_def less_eq_prod_def less_prod_def)

lemma call_unchanged: "snd (call q bed) = bed"
  by (cases q) simp_all

text \<open>
  C5. When \<open>Bed.__init__\<close> returns, the records of the collection are sorted under the
  key it was given, and the key is kept. With a file, the records are those of the lines
  that do not start with \<open>#\<close>, in a stable sort: the same records as often as they were
  read, and records with equal keys in the order of the file. A call of \<open>seqids\<close>,
  \<open>accns\<close>, \<open>order\<close>, \<open>simple_bed\<close>, \<open>sub_bed\<close>, \<open>sub_beds\<close> or \<open>sum\<close> leaves the
  collection as it was, still sorted. The default key compares by seqid, then by
  \<open>start\<close>, then by accn, each ascending. The file with the records
  \<open>(chr2, 100, 200, g1)\<close>, \<open>(chr1, 50, 80, g2)\<close>, \<open>(chr1, 10, 20, g3)\<close> loads, with the
  default key, in the order \<open>g3, g2, g1\<close>.
\<close>

theorem Bed_init_sorted:
  assumes "Bed_init fs filename k = Inr bed"
  shows "sorted (map k (items bed)) \<and> key bed = k
    \<and> (filename = None \<or> filename = Some [] \<or>
        (\<exists>ls bs. fs (the filename) = Some ls
            \<and> map Inr bs = map BedLine_init (filter (\<lambda>l. take 1 l \<noteq> ''#'') ls)
            \<and> items bed = sort_key k bs
            \<and> mset (items bed) = mset bs
            \<and> (\<forall>v. filter (\<lambda>b. k b = v) (items bed) = filter (\<lambda>b. k b = v) bs)))
    \<and> (\<forall>q. snd (call q bed) = bed \<and> sorted (map k (items (snd (call q bed)))))
    \<and> (\<forall>a b. (default_key a \<le> default_key b)
          = (seqid a < seqid b \<or> seqid a = seqid b \<and>
              (start a < start b \<or> start a = start b \<and> accn a \<le> accn b)))
    \<and> (case Bed_init
          [''x.bed'' \<mapsto>
            [''chr2'' @ [TAB] @ ''99'' @ [TAB] @ ''200'' @ [TAB] @ ''g1'' @ [CHR 0x0A],
             ''chr1'' @ [TAB] @ ''49'' @ [TAB] @ ''80'' @ [TAB] @ ''g2'' @ [CHR 0x0A],
             ''chr1'' @ [TAB] @ ''9'' @ [TAB] @ ''20'' @ [TAB] @ ''g3'' @ [CHR 0x0A]]]
          (Some ''x.bed'') default_key of
          Inl e \<Rightarrow> False
        | Inr b \<Rightarrow> map (\<lambda>x. (seqid x, start x, end' x, accn x)) (items b)
            = [(''chr1'', 10, 20, ''g3''), (''chr1'', 50, 80, ''g2''), (''chr2'', 100, 200, ''g1'')])"
proof -
  have s: "sorted (map k (items bed)) \<and> key bed = k"
    using assms by (auto simp: Bed_init_def split: if_splits option.splits sum.splits)
  have l: "filename = None \<or> filename = Some [] \<or>
        (\<exists>ls bs. fs (the filename) = Some ls
            \<and> map Inr bs = map BedLine_init (filter (\<lambda>l. take 1 l \<noteq> ''#'') ls)
            \<and> items bed = sort_key k bs
            \<and> mset (items bed) = mset bs
            \<and> (\<forall>v. filter (\<lambda>b. k b = v) (items bed) = filter (\<lambda>b. k b = v) bs))"
  proof (cases "filename = None \<or> filename = Some []")
    case True
    then show ?thesis by blast
  next
    case False
    with assms obtain ls bs where f: "fs (the filename) = Some ls"
      and ll: "load_loop [] ls = Inr bs" and i: "items bed = sort_key k bs"
      by (auto simp: Bed_init_def split: if_splits option.splits sum.splits)
    from load_loop_result [OF ll]
    have "map Inr bs = map BedLine_init (filter (\<lambda>l. take 1 l \<noteq> ''#'') ls)" by simp
    with f i show ?thesis by (auto simp: sort_key_stable)
  qed
  have c: "\<forall>q. snd (call q bed) = bed \<and> sorted (map k (items (snd (call q bed))))"
    using s by (simp add: call_unchanged)
  have e: "case Bed_init
          [''x.bed'' \<mapsto>
            [''chr2'' @ [TAB] @ ''99'' @ [TAB] @ ''200'' @ [TAB] @ ''g1'' @ [CHR 0x0A],
             ''chr1'' @ [TAB] @ ''49'' @ [TAB] @ ''80'' @ [TAB] @ ''g2'' @ [CHR 0x0A],
             ''chr1'' @ [TAB] @ ''9'' @ [TAB] @ ''20'' @ [TAB] @ ''g3'' @ [CHR 0x0A]]]
          (Some ''x.bed'') default_key of
          Inl e \<Rightarrow> False
        | Inr b \<Rightarrow> map (\<lambda>x. (seqid x, start x, end' x, accn x)) (items b)
            = [(''chr1'', 10, 20, ''g3''), (''chr1'', 50, 80, ''g2''), (''chr2'', 100, 200, ''g1'')]"
    by code_simp
  from s l c e default_key_le show ?thesis by blast
qed


theorem Bed_init_sorted_witness:
  "Bed_init
      [''x.bed'' \<mapsto>
        [''chr2'' @ [TAB] @ ''99'' @ [TAB] @ ''200'' @ [TAB] @ ''g1'' @ [CHR 0x0A],
         ''# a comment'' @ [CHR 0x0A],
         ''chr1'' @ [TAB] @ ''49'' @ [TAB] @ ''80'' @ [TAB] @ ''g2'' @ [CHR 0x0A],
         ''chr1'' @ [TAB] @ ''9'' @ [TAB] @ ''20'' @ [TAB] @ ''g3'' @ [CHR 0x0A]]]
      (Some ''x.bed'') default_key
    = Inr \<lparr>key = default_key, items =
        [\<lparr>seqid = ''chr1'', start = 10, end' = 20, accn = ''g3'', extra = None, score = None, strand = None\<rparr>,
         \<lparr>seqid = ''chr1'', start = 50, end' = 80, accn = ''g2'', extra = None, score = None, strand = None\<rparr>,
         \<lparr>seqid = ''chr2'', start = 100, end' = 200, accn = ''g1'', extra = None, score = None, strand = None\<rparr>]\<rparr>
   \<and> sorted (map default_key
        [\<lparr>seqid = ''chr1'', start = 10, end' = 20, accn = ''g3'', extra = None, score = None, strand = None\<rparr>,
         \<lparr>seqid = ''chr1'', start = 50, end' = 80, accn = ''g2'', extra = None, score = None, strand = None\<rparr>,
         \<lparr>seqid = ''chr2'', start = 100, end' = 200, accn = ''g1'', extra = None, score = None, strand = None\<rparr>])"
proof -
  let ?fs = "[''x.bed'' \<mapsto>
        [''chr2'' @ [TAB] @ ''99'' @ [TAB] @ ''200'' @ [TAB] @ ''g1'' @ [CHR 0x0A],
         ''# a comment'' @ [CHR 0x0A],
         ''chr1'' @ [TAB] @ ''49'' @ [TAB] @ ''80'' @ [TAB] @ ''g2'' @ [CHR 0x0A],
         ''chr1'' @ [TAB] @ ''9'' @ [TAB] @ ''20'' @ [TAB] @ ''g3'' @ [CHR 0x0A]]]"
  let ?bed = "\<lparr>key = default_key, items =
        [\<lparr>seqid = ''chr1'', start = 10, end' = 20, accn = ''g3'', extra = None, score = None, strand = None\<rparr>,
         \<lparr>seqid = ''chr1'', start = 50, end' = 80, accn = ''g2'', extra = None, score = None, strand = None\<rparr>,
         \<lparr>seqid = ''chr2'', start = 100, end' = 200, accn = ''g1'', extra = None, score = None, strand = None\<rparr>]\<rparr>"
  have ld: "load_loop []
        [''chr2'' @ [TAB] @ ''99'' @ [TAB] @ ''200'' @ [TAB] @ ''g1'' @ [CHR 0x0A],
         ''# a comment'' @ [CHR 0x0A],
         ''chr1'' @ [TAB] @ ''49'' @ [TAB] @ ''80'' @ [TAB] @ ''g2'' @ [CHR 0x0A],
         ''chr1'' @ [TAB] @ ''9'' @ [TAB] @ ''20'' @ [TAB] @ ''g3'' @ [CHR 0x0A]]
      = Inr [\<lparr>seqid = ''chr2'', start = 100, end' = 200, accn = ''g1'', extra = None, score = None, strand = None\<rparr>,
         \<lparr>seqid = ''chr1'', start = 50, end' = 80, accn = ''g2'', extra = None, score = None, strand = None\<rparr>,
         \<lparr>seqid = ''chr1'', start = 10, end' = 20, accn = ''g3'', extra = None, score = None, strand = None\<rparr>]"
    by code_simp
  have so: "sort_key default_key
        [\<lparr>seqid = ''chr2'', start = 100, end' = 200, accn = ''g1'', extra = None, score = None, strand = None\<rparr>,
         \<lparr>seqid = ''chr1'', start = 50, end' = 80, accn = ''g2'', extra = None, score = None, strand = None\<rparr>,
         \<lparr>seqid = ''chr1'', start = 10, end' = 20, accn = ''g3'', extra = None, score = None, strand = None\<rparr>]
      = [\<lparr>seqid = ''chr1'', start = 10, end' = 20, accn = ''g3'', extra = None, score = None, strand = None\<rparr>,
         \<lparr>seqid = ''chr1'', start = 50, end' = 80, accn = ''g2'', extra = None, score = None, strand = None\<rparr>,
         \<lparr>seqid = ''chr2'', start = 100, end' = 200, accn = ''g1'', extra = None, score = None, strand = None\<rparr>]"
    by code_simp
  have f: "?fs (the (Some ''x.bed'')) = Some
        [''chr2'' @ [TAB] @ ''99'' @ [TAB] @ ''200'' @ [TAB] @ ''g1'' @ [CHR 0x0A],
         ''# a comment'' @ [CHR 0x0A],
         ''chr1'' @ [TAB] @ ''49'' @ [TAB] @ ''80'' @ [TAB] @ ''g2'' @ [CHR 0x0A],
         ''chr1'' @ [TAB] @ ''9'' @ [TAB] @ ''20'' @ [TAB] @ ''g3'' @ [CHR 0x0A]]"
    by simp
  have h: "Bed_init ?fs (Some ''x.bed'') default_key = Inr ?bed"
    unfolding Bed_init_def
    by (simp only: f ld so option.case sum.case option.distinct option.inject
          list.distinct simp_thms if_False)
  from Bed_init_sorted [OF h] have "sorted (map default_key (items ?bed))" by blast
  then have "sorted (map default_key
        [\<lparr>seqid = ''chr1'', start = 10, end' = 20, accn = ''g3'', extra = None, score = None, strand = None\<rparr>,
         \<lparr>seqid = ''chr1'', start = 50, end' = 80, accn = ''g2'', extra = None, score = None, strand = None\<rparr>,
         \<lparr>seqid = ''chr2'', start = 100, end' = 200, accn = ''g1'', extra = None, score = None, strand = None\<rparr>])"
    by (simp only: Bed.select_convs)
  with h show ?thesis by blast
qed


section \<open>Coverage\<close>

lemma covered_Cons: "covered ((s, e) # ivs) = {s..e} \<union> covered ivs"
  by (simp add: covered_def)

lemma finite_covered: "finite (covered ivs)"
  by (auto simp: covered_def)

lemma sweep_card:
  assumes "curStart \<le> curEnd"
    and "sorted (map fst rest)"
    and "\<forall>(s, e) \<in> set rest. curStart \<le> s \<and> s \<le> e"
  shows "sweep tot curStart curEnd rest = tot + int (card ({curStart..curEnd} \<union> covered rest))"
  using assms
proof (induction rest arbitrary: tot curStart curEnd)
  case Nil
  then show ?case by (simp add: covered_def)
next
  case (Cons iv rest)
  obtain s e where iv: "iv = (s, e)" by (cases iv)
  from Cons.prems iv have se: "curStart \<le> s" "s \<le> e" and so: "sorted (map fst rest)"
    and ge: "\<forall>(s', e') \<in> set rest. s \<le> s' \<and> s' \<le> e'"
    by auto
  show ?case
  proof (cases "s \<le> curEnd + 1")
    case True
    have u: "{curStart..curEnd} \<union> {s..e} = {curStart..max curEnd e}"
      using True se Cons.prems(1) by auto
    have "\<forall>(s', e') \<in> set rest. curStart \<le> s' \<and> s' \<le> e'" using ge se by auto
    with Cons.IH [of curStart "max curEnd e" tot] so Cons.prems(1)
    have "sweep tot curStart (max curEnd e) rest
        = tot + int (card ({curStart..max curEnd e} \<union> covered rest))" by simp
    moreover have "{curStart..curEnd} \<union> covered (iv # rest) = {curStart..max curEnd e} \<union> covered rest"
      using u iv by (auto simp: covered_Cons)
    ultimately show ?thesis using True iv by simp
  next
    case False
    have d: "{curStart..curEnd} \<inter> ({s..e} \<union> covered rest) = {}"
      using False ge by (fastforce simp: covered_def)
    have "card ({curStart..curEnd} \<union> ({s..e} \<union> covered rest))
        = card {curStart..curEnd} + card ({s..e} \<union> covered rest)"
      using d by (intro card_Un_disjoint) (simp_all add: finite_covered)
    moreover have "int (card {curStart..curEnd}) = curEnd - curStart + 1"
      using Cons.prems(1) by simp
    moreover from Cons.IH [of s e "tot + (curEnd - curStart + 1)"] se so ge
    have "sweep (tot + (curEnd - curStart + 1)) s e rest
        = tot + (curEnd - curStart + 1) + int (card ({s..e} \<union> covered rest))" by simp
    ultimately show ?thesis using False iv by (simp add: covered_Cons Un_assoc)
  qed
qed

lemma covered_set: "set xs = set ys \<Longrightarrow> covered xs = covered ys"
  by (simp add: covered_def)

lemma group_total_card:
  assumes "\<forall>(s, e) \<in> set ivs. s \<le> e"
  shows "group_total ivs = int (card (covered ivs))"
proof (cases "sort ivs")
  case Nil
  then have "ivs = []" by (metis length_sort length_0_conv)
  then show ?thesis by (simp add: group_total_def covered_def)
next
  case (Cons iv rest)
  obtain s e where iv: "iv = (s, e)" by (cases iv)
  have st: "sorted (sort ivs)" by simp
  with Cons iv have le: "\<forall>x \<in> set rest. (s, e) \<le> x" and sr: "sorted rest" by simp_all
  have se: "s \<le> e" and all: "\<forall>(s', e') \<in> set rest. s' \<le> e'"
  proof -
    have "set (sort ivs) = set ivs" by simp
    with Cons iv assms show "s \<le> e" "\<forall>(s', e') \<in> set rest. s' \<le> e'" by auto
  qed
  have a: "\<forall>(s', e') \<in> set rest. s \<le> s' \<and> s' \<le> e'"
    using le all by (auto simp: less_eq_prod_def)
  have m: "sorted (map fst rest)"
    using sr by (induction rest) (auto simp: less_eq_prod_def)
  have "covered ivs = covered (sort ivs)" by (rule covered_set) simp
  also have "\<dots> = {s..e} \<union> covered rest" using Cons iv by (simp add: covered_Cons)
  finally have c: "covered ivs = {s..e} \<union> covered rest" .
  from sweep_card [OF se m a, of 0] Cons iv c show ?thesis
    by (simp add: group_total_def)
qed


lemma range_union_card:
  assumes "\<forall>(c, s, e) \<in> set ranges. s \<le> e"
  shows "range_union ranges = (\<Sum>c \<in> fst ` set ranges. int (card (covered (group_of c ranges))))"
proof -
  have g: "group_total (group_of c ranges) = int (card (covered (group_of c ranges)))" for c
    using assms by (intro group_total_card) (auto simp: group_of_def)
  have "range_union ranges
      = sum_list (map (\<lambda>c. int (card (covered (group_of c ranges)))) (remdups (map fst ranges)))"
    by (simp add: range_union_def g)
  also have "\<dots> = (\<Sum>c \<in> set (remdups (map fst ranges)). int (card (covered (group_of c ranges))))"
    by (rule sum_list_distinct_conv_sum_set) simp
  finally show ?thesis by simp
qed

lemma Bed_sum_card:
  assumes "\<forall>b \<in> set (items bed). start b \<le> end' b"
  shows "Bed_sum bed
    = (\<Sum>c \<in> set (seqids bed). int (card (\<Union>b \<in> set (sub_bed bed c). {start b..end' b})))"
proof -
  let ?ranges = "map (\<lambda>x. (seqid x, start x, end' x)) (items bed)"
  have a: "\<forall>(c, s, e) \<in> set ?ranges. s \<le> e" using assms by auto
  have f: "fst ` set ?ranges = set (seqids bed)" by (force simp: seqids_def)
  have c: "covered (group_of c ?ranges) = (\<Union>b \<in> set (sub_bed bed c). {start b..end' b})" for c
    by (auto simp: covered_def group_of_def sub_bed_def)
  from range_union_card [OF a] show ?thesis
    unfolding Bed_sum_def f by (simp only: c)
qed

text \<open>
  C4. For a collection whose records have \<open>start \<le> end\<close>, \<open>sum\<close> is the number of
  positions covered by the closed intervals \<open>[start, end]\<close> of the records, counted for
  each seqid on its own and added up over the seqids: a position covered by several
  intervals of one seqid counts once, and an interval \<open>[s, e]\<close> alone counts
  \<open>e - s + 1\<close>. On one seqid \<open>[1,10]\<close> and \<open>[11,20]\<close> give 20, \<open>[1,10]\<close> and
  \<open>[20,30]\<close> give 21, and the empty collection gives 0.
\<close>

theorem Bed_sum_union:
  "((\<forall>b \<in> set (items bed). start b \<le> end' b) \<longrightarrow>
      Bed_sum bed
        = (\<Sum>c \<in> set (seqids bed). int (card (\<Union>b \<in> set (sub_bed bed c). {start b..end' b}))))
   \<and> Bed_sum \<lparr>key = default_key, items =
        [\<lparr>seqid = ''chr1'', start = 1, end' = 10, accn = ''a'', extra = None, score = None, strand = None\<rparr>,
         \<lparr>seqid = ''chr1'', start = 11, end' = 20, accn = ''b'', extra = None, score = None, strand = None\<rparr>]\<rparr>
       = 20
   \<and> Bed_sum \<lparr>key = default_key, items =
        [\<lparr>seqid = ''chr1'', start = 1, end' = 10, accn = ''a'', extra = None, score = None, strand = None\<rparr>,
         \<lparr>seqid = ''chr1'', start = 20, end' = 30, accn = ''b'', extra = None, score = None, strand = None\<rparr>]\<rparr>
       = 21
   \<and> Bed_sum \<lparr>key = default_key, items = []\<rparr> = 0"
proof (intro conjI impI)
  assume "\<forall>b \<in> set (items bed). start b \<le> end' b"
  then show "Bed_sum bed
        = (\<Sum>c \<in> set (seqids bed). int (card (\<Union>b \<in> set (sub_bed bed c). {start b..end' b})))"
    by (rule Bed_sum_card)
next
  show "Bed_sum \<lparr>key = default_key, items =
        [\<lparr>seqid = ''chr1'', start = 1, end' = 10, accn = ''a'', extra = None, score = None, strand = None\<rparr>,
         \<lparr>seqid = ''chr1'', start = 11, end' = 20, accn = ''b'', extra = None, score = None, strand = None\<rparr>]\<rparr>
       = 20" by code_simp
next
  show "Bed_sum \<lparr>key = default_key, items =
        [\<lparr>seqid = ''chr1'', start = 1, end' = 10, accn = ''a'', extra = None, score = None, strand = None\<rparr>,
         \<lparr>seqid = ''chr1'', start = 20, end' = 30, accn = ''b'', extra = None, score = None, strand = None\<rparr>]\<rparr>
       = 21" by code_simp
next
  show "Bed_sum \<lparr>key = default_key, items = []\<rparr> = 0" by code_simp
qed

theorem Bed_sum_union_witness:
  "list_all (\<lambda>b. start b \<le> end' b)
      [\<lparr>seqid = ''chr1'', start = 1, end' = 10, accn = ''a'', extra = None, score = None, strand = None\<rparr>,
       \<lparr>seqid = ''chr2'', start = 1, end' = 5, accn = ''c'', extra = None, score = None, strand = None\<rparr>,
       \<lparr>seqid = ''chr1'', start = 5, end' = 15, accn = ''b'', extra = None, score = None, strand = None\<rparr>]
   \<and> (\<Sum>c \<in> set (seqids \<lparr>key = default_key, items =
      [\<lparr>seqid = ''chr1'', start = 1, end' = 10, accn = ''a'', extra = None, score = None, strand = None\<rparr>,
       \<lparr>seqid = ''chr2'', start = 1, end' = 5, accn = ''c'', extra = None, score = None, strand = None\<rparr>,
       \<lparr>seqid = ''chr1'', start = 5, end' = 15, accn = ''b'', extra = None, score = None, strand = None\<rparr>]\<rparr>).
        int (card (\<Union>b \<in> set (sub_bed \<lparr>key = default_key, items =
      [\<lparr>seqid = ''chr1'', start = 1, end' = 10, accn = ''a'', extra = None, score = None, strand = None\<rparr>,
       \<lparr>seqid = ''chr2'', start = 1, end' = 5, accn = ''c'', extra = None, score = None, strand = None\<rparr>,
       \<lparr>seqid = ''chr1'', start = 5, end' = 15, accn = ''b'', extra = None, score = None, strand = None\<rparr>]\<rparr> c).
          {start b..end' b})))
     = 20"
proof -
  let ?bed = "\<lparr>key = default_key, items =
      [\<lparr>seqid = ''chr1'', start = 1, end' = 10, accn = ''a'', extra = None, score = None, strand = None\<rparr>,
       \<lparr>seqid = ''chr2'', start = 1, end' = 5, accn = ''c'', extra = None, score = None, strand = None\<rparr>,
       \<lparr>seqid = ''chr1'', start = 5, end' = 15, accn = ''b'', extra = None, score = None, strand = None\<rparr>]\<rparr>"
  have h: "\<forall>b \<in> set (items ?bed). start b \<le> end' b" by simp
  have v: "Bed_sum ?bed = 20" by code_simp
  from Bed_sum_union [of ?bed] h
  have "Bed_sum ?bed
        = (\<Sum>c \<in> set (seqids ?bed). int (card (\<Union>b \<in> set (sub_bed ?bed c). {start b..end' b})))"
    by blast
  with v have "(\<Sum>c \<in> set (seqids ?bed). int (card (\<Union>b \<in> set (sub_bed ?bed c). {start b..end' b}))) = 20"
    by simp
  moreover have "list_all (\<lambda>b. start b \<le> end' b)
      [\<lparr>seqid = ''chr1'', start = 1, end' = 10, accn = ''a'', extra = None, score = None, strand = None\<rparr>,
       \<lparr>seqid = ''chr2'', start = 1, end' = 5, accn = ''c'', extra = None, score = None, strand = None\<rparr>,
       \<lparr>seqid = ''chr1'', start = 5, end' = 15, accn = ''b'', extra = None, score = None, strand = None\<rparr>]"
    by simp
  ultimately show ?thesis by blast
qed


end
